theory Spec2Isabelle
  imports Complex_Main "HOL-Library.Multiset" "HOL-Library.List_Lexorder" "HOL-Library.Char_ord"
begin

section \<open>Request signer: canonical query strings\<close>

text \<open>
  The market maker (\<^verbatim>\<open>market-maker.mjs\<close>) signs every request to the exchange. A
  parameter object is turned into a canonical query string by \<^verbatim>\<open>buildQS\<close>:
  \<^verbatim>\<open>
  function buildQS(params) {
      return Object.entries(params)
          .filter(([, v]) => v !== undefined)
          .sort(([a], [b]) => a.localeCompare(b))
          .map(([k, v]) => `${encodeURIComponent(k)}=${encodeURIComponent(v)}`)
          .join("&");
  }
  \<close>
  A JavaScript string is modelled by its UTF-8 bytes (\<^typ>\<open>string\<close>). A parameter object
  is modelled by the list \<^verbatim>\<open>Object.entries\<close> returns for it: the own properties in
  property order, every key once. A property value is \<^term>\<open>None\<close> for
  \<^verbatim>\<open>undefined\<close> and \<^term>\<open>Some s\<close> for any other value, \<open>s\<close> being the string the
  template literal converts it to.
\<close>

type_synonym jsval = "string option"

type_synonym params = "(string \<times> jsval) list"

subsection \<open>encodeURIComponent\<close>

text \<open>
  \<^verbatim>\<open>encodeURIComponent\<close> leaves the unreserved characters
  \<^verbatim>\<open>A-Z a-z 0-9 - _ . ! ~ * ' ( )\<close> alone and replaces every other byte of the UTF-8
  encoding by \<^verbatim>\<open>%XX\<close> with two upper-case hexadecimal digits.
\<close>

definition is_digit :: "char \<Rightarrow> bool" where
  "is_digit c = (48 \<le> (of_char c :: nat) \<and> (of_char c :: nat) \<le> 57)"

definition is_alpha :: "char \<Rightarrow> bool" where
  "is_alpha c =
     ((65 \<le> (of_char c :: nat) \<and> (of_char c :: nat) \<le> 90) \<or>
      (97 \<le> (of_char c :: nat) \<and> (of_char c :: nat) \<le> 122))"

definition uri_unreserved :: "char \<Rightarrow> bool" where
  "uri_unreserved c =
     (is_alpha c \<or> is_digit c \<or>
      (of_char c :: nat) \<in> {45, 95, 46, 33, 126, 42, 39, 40, 41})"

definition hex_digit :: "nat \<Rightarrow> char" where
  "hex_digit n = ''0123456789ABCDEF'' ! n"

definition encode_byte :: "char \<Rightarrow> string" where
  "encode_byte c =
     (if uri_unreserved c then [c]
      else [CHR ''%'', hex_digit ((of_char c :: nat) div 16),
            hex_digit ((of_char c :: nat) mod 16)])"

definition encodeURIComponent :: "string \<Rightarrow> string" where
  "encodeURIComponent s = concat (map encode_byte s)"

subsection \<open>Array.prototype.sort with a comparator\<close>

text \<open>
  \<^verbatim>\<open>Array.prototype.sort\<close> is stable. The comparator of \<^verbatim>\<open>buildQS\<close> compares
  the keys of two entries with \<^verbatim>\<open>String.prototype.localeCompare\<close>, the collation of the
  platform, which is not part of the repository: it is the parameter \<open>cmp\<close> of the
  model, a negative result meaning "sorts before". The stable sort is written as an
  insertion sort that puts an entry behind the entries it does not sort before.
\<close>

type_synonym collation = "string \<Rightarrow> string \<Rightarrow> int"

fun insort_entry :: "collation \<Rightarrow> string \<times> 'v \<Rightarrow> (string \<times> 'v) list \<Rightarrow> (string \<times> 'v) list" where
  "insort_entry cmp x [] = [x]"
| "insort_entry cmp x (y # ys) =
     (if cmp (fst x) (fst y) \<le> 0 then x # y # ys else y # insort_entry cmp x ys)"

definition sort_entries :: "collation \<Rightarrow> (string \<times> 'v) list \<Rightarrow> (string \<times> 'v) list" where
  "sort_entries cmp xs = foldr (insort_entry cmp) xs []"

subsection \<open>buildQS\<close>

fun join_with :: "string \<Rightarrow> string list \<Rightarrow> string" where
  "join_with sep [] = []"
| "join_with sep [x] = x"
| "join_with sep (x # y # ys) = x @ sep @ join_with sep (y # ys)"

definition to_string :: "jsval \<Rightarrow> string" where
  "to_string v = (case v of None \<Rightarrow> ''undefined'' | Some s \<Rightarrow> s)"

definition entry_string :: "string \<times> jsval \<Rightarrow> string" where
  "entry_string e = encodeURIComponent (fst e) @ ''='' @ encodeURIComponent (to_string (snd e))"

definition buildQS :: "collation \<Rightarrow> params \<Rightarrow> string" where
  "buildQS cmp ps =
     join_with ''&'' (map entry_string (sort_entries cmp (filter (\<lambda>e. snd e \<noteq> None) ps)))"

subsection \<open>signedBody\<close>


definition digit_char :: "int \<Rightarrow> char" where
  "digit_char d = ''0123456789'' ! nat d"

function digits :: "int \<Rightarrow> string" where
  "digits n = (if n < 10 then [digit_char n] else digits (n div 10) @ [digit_char (n mod 10)])"
  by pat_completeness auto
termination
  by (relation "measure nat") auto

declare digits.simps [simp del]



subsection \<open>The canonical form of the specification, and a collation\<close>

text \<open>
  The specification's words for the canonical form: drop the entries whose value is unset,
  sort the remaining entries by key in byte order, join the percent-encoded
  \<^verbatim>\<open>key=value\<close> pairs with \<^verbatim>\<open>&\<close>. The order on \<^typ>\<open>string\<close> is the lexicographic
  order of the byte values.
\<close>

definition canonicalize_spec :: "params \<Rightarrow> string" where
  "canonicalize_spec ps =
     join_with ''&''
       (map (\<lambda>(k, v). encodeURIComponent k @ ''='' @ encodeURIComponent v)
          (sort_key fst (concat (map (\<lambda>(k, v). case v of None \<Rightarrow> [] | Some s \<Rightarrow> [(k, s)]) ps))))"

text \<open>
  The entries of a parameter object that have a value, in the order of the object.
\<close>

definition set_entries :: "params \<Rightarrow> (string \<times> string) list" where
  "set_entries ps = concat (map (\<lambda>(k, v). case v of None \<Rightarrow> [] | Some s \<Rightarrow> [(k, s)]) ps)"

text \<open>
  What \<^verbatim>\<open>Array.prototype.sort\<close> asks of its comparator, a consistent comparator, on a
  set of keys: any two keys are comparable and \<open>cmp a b \<le> 0\<close> is transitive. Two keys may
  be tied: each sorts no later than the other. The sort leaves the entries of tied keys in
  the order they had.
\<close>

definition consistent_keys :: "collation \<Rightarrow> string set \<Rightarrow> bool" where
  "consistent_keys cmp K =
     ((\<forall>a\<in>K. \<forall>b\<in>K. cmp a b \<le> 0 \<or> cmp b a \<le> 0) \<and>
      (\<forall>a\<in>K. \<forall>b\<in>K. \<forall>c\<in>K. cmp a b \<le> 0 \<and> cmp b c \<le> 0 \<longrightarrow> cmp a c \<le> 0))"

definition tied :: "collation \<Rightarrow> string \<Rightarrow> string \<Rightarrow> bool" where
  "tied cmp a b = (cmp a b \<le> 0 \<and> cmp b a \<le> 0)"

text \<open>
  What \<open>cmp\<close> has to do for the sort to put a set of keys in one order whatever order
  they come in: \<open>cmp a b \<le> 0\<close> is a linear order on them, that is, the comparator is
  consistent and no two different keys are tied.
\<close>

definition orders_keys :: "collation \<Rightarrow> string set \<Rightarrow> bool" where
  "orders_keys cmp K =
     ((\<forall>a\<in>K. \<forall>b\<in>K. cmp a b \<le> 0 \<or> cmp b a \<le> 0) \<and>
      (\<forall>a\<in>K. \<forall>b\<in>K. \<forall>c\<in>K. cmp a b \<le> 0 \<and> cmp b c \<le> 0 \<longrightarrow> cmp a c \<le> 0) \<and>
      (\<forall>a\<in>K. \<forall>b\<in>K. cmp a b \<le> 0 \<and> cmp b a \<le> 0 \<longrightarrow> a = b))"

definition key_le :: "collation \<Rightarrow> string \<times> 'v \<Rightarrow> string \<times> 'v \<Rightarrow> bool" where
  "key_le cmp a b = (cmp (fst a) (fst b) \<le> 0)"

text \<open>
  \<^verbatim>\<open>localeCompare\<close> on keys of ASCII letters, as the default collation of Node.js
  orders them (the root collation of ICU, which the English locales use): the letters are
  compared without regard to case first, and between two keys that differ in case only
  the one with the lower-case letter at the first difference comes first. So
  \<^verbatim>\<open>"a".localeCompare("B")\<close> is negative, while the byte \<^verbatim>\<open>B\<close> (66) is below the
  byte \<^verbatim>\<open>a\<close> (97). It stands for the collation where a closed example needs one; the
  properties below are proved for every collation.
\<close>

fun compare_codes :: "nat list \<Rightarrow> nat list \<Rightarrow> int" where
  "compare_codes [] [] = 0"
| "compare_codes [] (y # ys) = - 1"
| "compare_codes (x # xs) [] = 1"
| "compare_codes (x # xs) (y # ys) =
     (if x < y then - 1 else if y < x then 1 else compare_codes xs ys)"

definition is_upper :: "char \<Rightarrow> bool" where
  "is_upper c = (65 \<le> (of_char c :: nat) \<and> (of_char c :: nat) \<le> 90)"

definition letter_weight :: "char \<Rightarrow> nat" where
  "letter_weight c = (if is_upper c then of_char c + 32 else of_char c)"

definition case_weight :: "char \<Rightarrow> nat" where
  "case_weight c = (if is_upper c then 1 else 0)"

definition localeCompare_letters :: collation where
  "localeCompare_letters a b =
     (let primary = compare_codes (map letter_weight a) (map letter_weight b)
      in if primary \<noteq> 0 then primary
         else compare_codes (map case_weight a) (map case_weight b))"

definition byte_compare :: collation where
  "byte_compare a b = compare_codes (map of_char a) (map of_char b)"

text \<open>
  \<^verbatim>\<open>localeCompare\<close> on the two spellings of the letter \<^verbatim>\<open>e\<close> with an acute accent:
  the one code point U+00E9 (the bytes C3 A9 in UTF-8, which is what
  \<^verbatim>\<open>encodeURIComponent\<close> escapes) and the letter \<^verbatim>\<open>e\<close> followed by the combining
  accent U+0301 (the bytes 65 CC 81). The two strings are different and canonically
  equivalent, and \<^verbatim>\<open>localeCompare\<close> returns 0 for canonically equivalent strings (as
  ECMA-262 requires of it): \<^verbatim>\<open>"\u00e9".localeCompare("e\u0301")\<close> is 0. The comparison
  is made on the composed spelling. It stands for the collation where a closed example
  needs two different keys that are tied.
\<close>

fun compose_acute :: "string \<Rightarrow> string" where
  "compose_acute (a # b # c # s) =
     (if a = CHR ''e'' \<and> b = CHR 0xCC \<and> c = CHR 0x81 then CHR 0xC3 # CHR 0xA9 # compose_acute s
      else a # compose_acute (b # c # s))"
| "compose_acute s = s"

definition localeCompare_accents :: collation where
  "localeCompare_accents a b = byte_compare (compose_acute a) (compose_acute b)"

section \<open>Numbers\<close>

text \<open>
  A JavaScript number is an IEEE 754 double. \<open>Fin m t\<close> is the finite double \<open>m \<times> 2\<^sup>t\<close>
  in the form the format stores it: a normal number has \<open>2\<^sup>5\<^sup>2 \<le> |m| < 2\<^sup>5\<^sup>3\<close> and
  \<open>- 1074 \<le> t \<le> 971\<close>, a subnormal one has \<open>|m| < 2\<^sup>5\<^sup>2\<close> and \<open>t = - 1074\<close>, and zero is
  \<open>Fin 0 0\<close>. The two zeros are one value here: the program never divides and never
  prints a zero other than through \<^verbatim>\<open>toFixed\<close> and string conversion, which do not
  tell them apart. \<open>Infinity neg\<close> is the infinity with that sign.
\<close>

datatype dbl = NaN | Infinity bool | Fin int int

function bit_length :: "int \<Rightarrow> int" where
  "bit_length a = (if a \<le> 0 then 0 else 1 + bit_length (a div 2))"
  by pat_completeness auto
termination
  by (relation "measure nat") auto

declare bit_length.simps [simp del]

text \<open>
  \<open>round_frac p q\<close> is the double nearest to the fraction \<open>p / q\<close> (for \<open>0 < q\<close>), ties
  going to the even significand: the rounding of every arithmetic operation and of the
  reading of a decimal literal. \<open>e\<close> is \<open>\<lfloor>log\<^sub>2 (|p| / q)\<rfloor>\<close> and \<open>t\<close> the exponent of the
  last bit kept.
\<close>

definition round_frac :: "int \<Rightarrow> int \<Rightarrow> dbl" where
  "round_frac p q =
     (if p = 0 then Fin 0 0
      else
        let a = \<bar>p\<bar>;
            bl = bit_length a - bit_length q;
            e = (if (if 0 \<le> bl then q * 2 ^ nat bl \<le> a else q \<le> a * 2 ^ nat (- bl))
                 then bl else bl - 1);
            t = max (e - 52) (- 1074);
            n = (if t < 0 then a * 2 ^ nat (- t) else a);
            d = (if t < 0 then q else q * 2 ^ nat t);
            m0 = n div d;
            r = n mod d;
            m = (if 2 * r < d then m0
                 else if d < 2 * r then m0 + 1
                 else if even m0 then m0 else m0 + 1);
            m' = (if m = 2 ^ 53 then 2 ^ 52 else m);
            t' = (if m = 2 ^ 53 then t + 1 else t)
        in if m' = 0 then Fin 0 0
           else if 971 < t' then Infinity (p < 0)
           else Fin (if p < 0 then - m' else m') t')"

definition dbl_of_int :: "int \<Rightarrow> dbl" where
  "dbl_of_int i = round_frac i 1"

fun fmul :: "dbl \<Rightarrow> dbl \<Rightarrow> dbl" where
  "fmul (Fin m s) (Fin n t) =
     (if 0 \<le> s + t then round_frac (m * n * 2 ^ nat (s + t)) 1
      else round_frac (m * n) (2 ^ nat (- (s + t))))"
| "fmul NaN y = NaN"
| "fmul x NaN = NaN"
| "fmul (Infinity a) (Infinity b) = Infinity (a \<noteq> b)"
| "fmul (Infinity a) (Fin n t) = (if n = 0 then NaN else Infinity (a \<noteq> (n < 0)))"
| "fmul (Fin m s) (Infinity b) = (if m = 0 then NaN else Infinity ((m < 0) \<noteq> b))"

fun fadd :: "dbl \<Rightarrow> dbl \<Rightarrow> dbl" where
  "fadd (Fin m s) (Fin n t) =
     (let e = min s t;
          k = m * 2 ^ nat (s - e) + n * 2 ^ nat (t - e)
      in if 0 \<le> e then round_frac (k * 2 ^ nat e) 1 else round_frac k (2 ^ nat (- e)))"
| "fadd NaN y = NaN"
| "fadd x NaN = NaN"
| "fadd (Infinity a) (Infinity b) = (if a = b then Infinity a else NaN)"
| "fadd (Infinity a) (Fin n t) = Infinity a"
| "fadd (Fin m s) (Infinity b) = Infinity b"

fun fneg :: "dbl \<Rightarrow> dbl" where
  "fneg NaN = NaN"
| "fneg (Infinity a) = Infinity (\<not> a)"
| "fneg (Fin m t) = Fin (- m) t"

definition fsub :: "dbl \<Rightarrow> dbl \<Rightarrow> dbl" where
  "fsub x y = fadd x (fneg y)"

text \<open>The operand of \<^verbatim>\<open>!\<close>: zero and NaN are falsy, every other number is truthy.\<close>

fun falsy :: "dbl \<Rightarrow> bool" where
  "falsy NaN = True"
| "falsy (Infinity a) = False"
| "falsy (Fin m t) = (m = 0)"

text \<open>
  \<^verbatim>\<open>x.toFixed(4)\<close>: for a finite \<open>x\<close> below \<open>10\<^sup>2\<^sup>1\<close> in magnitude, the integer \<open>n\<close>
  nearest to \<open>|x| \<times> 10\<^sup>4\<close> (the larger one of two) printed with four decimals, after a
  minus sign when \<open>x < 0\<close>: \<open>Fixed neg n\<close>. For every other number the result is the
  string conversion of the number itself, which is not spelled out: \<open>NumToString x\<close>.
\<close>

datatype numstr = Fixed bool int | NumToString dbl

fun toFixed4 :: "dbl \<Rightarrow> numstr" where
  "toFixed4 (Fin m t) =
     (if (if 0 \<le> t then 10 ^ 21 \<le> \<bar>m\<bar> * 2 ^ nat t else 10 ^ 21 * 2 ^ nat (- t) \<le> \<bar>m\<bar>)
      then NumToString (Fin m t)
      else Fixed (m < 0)
             (if 0 \<le> t then \<bar>m\<bar> * 2 ^ nat t * 10000
              else (2 * \<bar>m\<bar> * 10000 + 2 ^ nat (- t)) div 2 ^ nat (1 - t)))"
| "toFixed4 NaN = NumToString NaN"
| "toFixed4 (Infinity a) = NumToString (Infinity a)"

definition fixed_string :: "bool \<Rightarrow> int \<Rightarrow> string" where
  "fixed_string neg n =
     (if neg then ''-'' else []) @ digits (n div 10000) @ ''.'' @
     [digit_char (n div 1000 mod 10), digit_char (n div 100 mod 10),
      digit_char (n div 10 mod 10), digit_char (n mod 10)]"

text \<open>The number a four-decimal string denotes.\<close>

definition fixed_value :: "bool \<Rightarrow> int \<Rightarrow> rat" where
  "fixed_value neg n = (if neg then - (of_int n / 10000) else of_int n / 10000)"

text \<open>The number a finite double denotes.\<close>

definition fin_value :: "int \<Rightarrow> int \<Rightarrow> rat" where
  "fin_value m t = (if 0 \<le> t then of_int m * 2 ^ nat t else of_int m / 2 ^ nat (- t))"

text \<open>
  \<^verbatim>\<open>parseFloat\<close> of a value that is a number already: the number is converted to its
  string, which reads back as the same number.
\<close>

definition parseFloat_number :: "dbl \<Rightarrow> dbl" where
  "parseFloat_number x = x"

section \<open>The per-pair cycle\<close>

subsection \<open>Configuration\<close>

text \<open>
  A pair of the table \<^verbatim>\<open>PAIRS\<close>, and the two settings the cycle reads. Both settings
  are results of \<^verbatim>\<open>parseInt\<close>: \<^term>\<open>None\<close> is NaN, with which every comparison is
  false. The counter of a ladder loop and the error counter are numbers of the program
  and integers here, which they are exactly below \<open>2\<^sup>5\<^sup>3\<close>.
\<close>

record pair =
  symbol :: string
  productId :: int
  spread :: dbl
  quantity :: dbl

record settings =
  LEVELS :: "int option"
  MAX_ERRORS :: "int option"

definition js_le :: "int \<Rightarrow> int option \<Rightarrow> bool" where
  "js_le i n = (case n of None \<Rightarrow> False | Some l \<Rightarrow> i \<le> l)"

definition js_ge :: "nat \<Rightarrow> int option \<Rightarrow> bool" where
  "js_ge c n = (case n of None \<Rightarrow> False | Some l \<Rightarrow> l \<le> int c)"

subsection \<open>Symbols\<close>

text \<open>
  \<^verbatim>\<open>
  function getSymbols(symbolStr) {
      const backendSymbol = symbolStr.includes("-")
          ? symbolStr.replace("-", "") + "PERP"
          : symbolStr.replace("/", "");
      const binanceSymbol = backendSymbol.replace(/PERP$/, "").replace(/USDC$/, "USDT");
      return { backend: backendSymbol, binance: binanceSymbol };
  }
  \<close>
  \<^verbatim>\<open>replace\<close> with a string pattern replaces the first occurrence only.
\<close>

record symbols =
  backend :: string
  binance :: string

definition replace_suffix :: "string \<Rightarrow> string \<Rightarrow> string \<Rightarrow> string" where
  "replace_suffix suf new s =
     (if length suf \<le> length s \<and> drop (length s - length suf) s = suf
      then take (length s - length suf) s @ new else s)"

definition getSymbols :: "string \<Rightarrow> symbols" where
  "getSymbols symbolStr =
     (let backendSymbol =
            (if CHR ''-'' \<in> set symbolStr then remove1 (CHR ''-'') symbolStr @ ''PERP''
             else remove1 (CHR ''/'') symbolStr);
          binanceSymbol = replace_suffix ''USDC'' ''USDT'' (replace_suffix ''PERP'' [] backendSymbol)
      in \<lparr>backend = backendSymbol, binance = binanceSymbol\<rparr>)"

subsection \<open>What a cycle does and what it is answered\<close>

text \<open>
  The parameter object of an order, as \<^verbatim>\<open>placeOrder\<close> hands it to
  \<^verbatim>\<open>signedBody\<close>; an optional field is \<^term>\<open>None\<close> when the property is not set.
\<close>

datatype side = BUY | SELL

record order =
  o_productId :: int
  o_quantity :: numstr
  o_side :: side
  o_symbol :: string
  o_type :: string
  o_timeInForce :: "string option"
  o_price :: "numstr option"

text \<open>
  The answer to a request to the exchange: the \<^verbatim>\<open>fetch\<close> is rejected, or there is a
  response with an HTTP status. The promise of \<^verbatim>\<open>fetch\<close> is settled when the headers
  have arrived; the body is read afterwards, by \<^verbatim>\<open>res.text()\<close>, and that reading can
  be rejected in its turn (the connection is lost before the body is complete).
\<close>

datatype reply = Rejected | Status nat

definition ok :: "nat \<Rightarrow> bool" where
  "ok st = (200 \<le> st \<and> st \<le> 299)"

text \<open>
  The answer to the price query. \<open>PriceRejected\<close>: the \<^verbatim>\<open>fetch\<close> or the reading of
  the JSON body is rejected. Otherwise a status and the value the price is read from
  (the body, or the first element of a body that is an array, for the exchange's own
  endpoint): \<open>NoItem\<close> when it is \<^verbatim>\<open>null\<close> or missing, and else \<open>Item truthy x\<close>, where
  \<open>truthy\<close> tells whether its property \<^verbatim>\<open>markPrice\<close> is truthy and \<open>x\<close> is what
  \<^verbatim>\<open>parseFloat\<close> makes of that property.
\<close>

datatype item = NoItem | Item bool dbl

datatype price_reply = PriceRejected | PriceResponse nat item

text \<open>
  What a cycle is answered: \<open>on_price\<close> to the price query, \<open>on_cancel\<close> to the
  cancellation request, \<open>on_order w k\<close> to the \<open>k\<close>-th order request, and \<open>on_text w k\<close>
  tells whether the body of the response to the \<open>k\<close>-th order request can be read
  (\<^verbatim>\<open>res.text()\<close> is fulfilled) or not (it is rejected). The cancellation never reads
  the body of its response.
\<close>

record world =
  on_price :: price_reply
  on_cancel :: reply
  on_order :: "nat \<Rightarrow> reply"
  on_text :: "nat \<Rightarrow> bool"

text \<open>
  What a cycle can throw. \<open>FetchFailed\<close>: a \<^verbatim>\<open>fetch\<close> or the reading of the JSON body
  of the price is rejected; \<open>TextFailed\<close>: \<^verbatim>\<open>res.text()\<close> of an order response is
  rejected.
\<close>

datatype error =
  FetchFailed | TextFailed | BinanceApi nat | NoMarkPrice | InvalidMarkPrice
| OrderFailed side string nat

datatype outcome = Done | Thrown error | Exited int

datatype venue = Binance | Exchange

datatype alert = KeyExpired | CycleError nat error | Stopping error

text \<open>
  What the cycle is seen to do: the price query, the cancellation request, the line the
  cancellation logs (\<open>CancelLogged None\<close> is \<^verbatim>\<open>done\<close>, \<open>CancelLogged (Some st)\<close> is
  \<^verbatim>\<open>skipped (st)\<close>), every order request, and every message that goes to
  \<^verbatim>\<open>console.error\<close> and \<^verbatim>\<open>sendTelegram\<close>. The other console lines are left out.
  \<open>calls\<close> counts the order requests, the \<open>k\<close>-th of which is answered by
  \<open>on_order w k\<close>.
\<close>

datatype event =
  PriceQuery venue string
| CancelOrders string
| CancelLogged "nat option"
| OrderSent order
| Alerted alert

record run =
  trace :: "event list"
  calls :: nat

definition and_then :: "(run \<Rightarrow> outcome \<times> run) \<Rightarrow> (run \<Rightarrow> outcome \<times> run) \<Rightarrow> run \<Rightarrow> outcome \<times> run" where
  "and_then f g s = (case f s of (Done, s') \<Rightarrow> g s' | (r, s') \<Rightarrow> (r, s'))"

subsection \<open>placeOrder\<close>

text \<open>
  \<^verbatim>\<open>
  async function placeOrder(pair, side, type, timeInForce, price, qty) {
      const { backend } = getSymbols(pair.symbol);
      const params = { productId: pair.productId, quantity: qty ?? pair.quantity, side, symbol: backend, type };
      if (timeInForce) params.timeInForce = timeInForce;
      if (price) params.price = price;
      const body = signedBody(params);
      const res = await api("/fapi/v1/order", { method: "POST", headers: ..., body });
      if (!res.ok) {
          const text = await res.text();
          if (res.status === 401) {
              const msg = "... API key expired (401). Update API_KEY in .env and restart manually.";
              console.error("\n" + msg);
              await sendTelegram(msg);
              process.exit(0);
          }
          throw new Error(`${side} ${type} failed [${res.status}]: ${text}`);
      }
  }
  \<close>
  A string argument is truthy when it is not empty; a string of \<^verbatim>\<open>toFixed\<close> never is
  empty. The body of a response that is not ok is read before the status is compared
  with 401: when that reading is rejected, \<^verbatim>\<open>await res.text()\<close> throws, whatever the
  status is, and neither the alert nor \<^verbatim>\<open>process.exit(0)\<close> is reached. The body of a
  response that is ok is not read.
\<close>

definition order_params :: "pair \<Rightarrow> side \<Rightarrow> string \<Rightarrow> string \<Rightarrow> numstr option \<Rightarrow> numstr option \<Rightarrow> order" where
  "order_params pair sd ty timeInForce price qty =
     \<lparr>o_productId = productId pair,
      o_quantity = (case qty of None \<Rightarrow> NumToString (quantity pair) | Some q \<Rightarrow> q),
      o_side = sd,
      o_symbol = backend (getSymbols (symbol pair)),
      o_type = ty,
      o_timeInForce = (if timeInForce = [] then None else Some timeInForce),
      o_price = price\<rparr>"

definition post_order :: "world \<Rightarrow> order \<Rightarrow> run \<Rightarrow> outcome \<times> run" where
  "post_order w ord s =
     (let s1 = s\<lparr>trace := trace s @ [OrderSent ord], calls := Suc (calls s)\<rparr>
      in case on_order w (calls s) of
           Rejected \<Rightarrow> (Thrown FetchFailed, s1)
         | Status st \<Rightarrow>
             if ok st then (Done, s1)
             else if \<not> on_text w (calls s) then (Thrown TextFailed, s1)
             else if st = 401 then (Exited 0, s1\<lparr>trace := trace s1 @ [Alerted KeyExpired]\<rparr>)
             else (Thrown (OrderFailed (o_side ord) (o_type ord) st), s1))"

definition placeOrder ::
  "world \<Rightarrow> pair \<Rightarrow> side \<Rightarrow> string \<Rightarrow> string \<Rightarrow> numstr option \<Rightarrow> numstr option \<Rightarrow> run \<Rightarrow> outcome \<times> run" where
  "placeOrder w pair sd ty timeInForce price qty s =
     post_order w (order_params pair sd ty timeInForce price qty) s"

subsection \<open>cycleForPair\<close>

text \<open>
  The mark price:
  \<^verbatim>\<open>
  let markPrice;
  if (pair.symbol === "0G-USDC") {
      const beRes = await fetch(`${BACKEND_URL}/fapi/v1/premiumIndex?symbol=${backend}`);
      if (beRes.ok) {
          const data = await beRes.json();
          const item = Array.isArray(data) ? data[0] : data;
          if (item && item.markPrice) markPrice = parseFloat(item.markPrice);
      }
      if (!markPrice) markPrice = 0.04; // fallback fake price if missing
  } else {
      const binanceRes = await fetch(`https://fapi.binance.com/fapi/v1/premiumIndex?symbol=${binance}`);
      if (!binanceRes.ok) throw new Error(`Binance API: ${binanceRes.status}`);
      const binanceData = await binanceRes.json();
      markPrice = parseFloat(binanceData.markPrice);
  }
  if (!markPrice) throw new Error(`Invalid markPrice for ${pair.symbol}`);
  \<close>
  Reading \<^verbatim>\<open>markPrice\<close> from a body that is \<^verbatim>\<open>null\<close> throws a TypeError
  (\<open>NoMarkPrice\<close>).
\<close>

definition mark_price :: "pair \<Rightarrow> price_reply \<Rightarrow> run \<Rightarrow> (error + dbl) \<times> run" where
  "mark_price pair rep s =
     (if symbol pair = ''0G-USDC'' then
        (let s1 = s\<lparr>trace := trace s @ [PriceQuery Exchange (backend (getSymbols (symbol pair)))]\<rparr>
         in case rep of
              PriceRejected \<Rightarrow> (Inl FetchFailed, s1)
            | PriceResponse st it \<Rightarrow>
                (let markPrice =
                       (if ok st then (case it of Item True x \<Rightarrow> Some x | _ \<Rightarrow> None) else None)
                 in case markPrice of
                      None \<Rightarrow> (Inr (round_frac 4 100), s1)
                    | Some x \<Rightarrow> (Inr (if falsy x then round_frac 4 100 else x), s1)))
      else
        (let s1 = s\<lparr>trace := trace s @ [PriceQuery Binance (binance (getSymbols (symbol pair)))]\<rparr>
         in case rep of
              PriceRejected \<Rightarrow> (Inl FetchFailed, s1)
            | PriceResponse st it \<Rightarrow>
                if \<not> ok st then (Inl (BinanceApi st), s1)
                else (case it of NoItem \<Rightarrow> (Inl NoMarkPrice, s1) | Item truthy x \<Rightarrow> (Inr x, s1))))"

text \<open>
  The cancellation:
  \<^verbatim>\<open>
  const cancelBody = signedBody({ symbol: backend });
  const cancelRes = await api("/fapi/v1/openOrders", { method: "DELETE", headers: ..., body: cancelBody });
  console.log(cancelRes.ok ? "done" : `skipped (${cancelRes.status})`);
  \<close>
\<close>

definition cancel_orders :: "pair \<Rightarrow> reply \<Rightarrow> run \<Rightarrow> outcome \<times> run" where
  "cancel_orders pair rep s =
     (let s1 = s\<lparr>trace := trace s @ [CancelOrders (backend (getSymbols (symbol pair)))]\<rparr>
      in case rep of
           Rejected \<Rightarrow> (Thrown FetchFailed, s1)
         | Status st \<Rightarrow>
             (Done, s1\<lparr>trace := trace s1 @ [CancelLogged (if ok st then None else Some st)]\<rparr>))"

text \<open>
  The two ladders: the loop over the bid levels and the loop over the ask levels differ in
  the side and in the sign before the spread only, so they are one function of the side.
  \<^verbatim>\<open>
  for (let i = 1; i <= LEVELS; i++) {
      const bid = (markPrice * (1 - pair.spread * i)).toFixed(4); // 4 decimals
      const qty = (parseFloat(pair.quantity) * (1 + (i - 1) * 0.5)).toFixed(4);
      await placeOrder(pair, "BUY", "LIMIT", "GTC", bid, qty);
  }
  for (let i = 1; i <= LEVELS; i++) {
      const ask = (markPrice * (1 + pair.spread * i)).toFixed(4);
      const qty = (parseFloat(pair.quantity) * (1 + (i - 1) * 0.5)).toFixed(4);
      await placeOrder(pair, "SELL", "LIMIT", "GTC", ask, qty);
  }
  \<close>
\<close>

definition level_price :: "side \<Rightarrow> dbl \<Rightarrow> dbl \<Rightarrow> int \<Rightarrow> numstr" where
  "level_price sd markPrice sp i =
     toFixed4 (fmul markPrice
       ((case sd of BUY \<Rightarrow> fsub | SELL \<Rightarrow> fadd) (dbl_of_int 1) (fmul sp (dbl_of_int i))))"

definition level_qty :: "dbl \<Rightarrow> int \<Rightarrow> numstr" where
  "level_qty q i =
     toFixed4 (fmul (parseFloat_number q)
       (fadd (dbl_of_int 1) (fmul (dbl_of_int (i - 1)) (round_frac 5 10))))"

function place_levels ::
  "world \<Rightarrow> side \<Rightarrow> int option \<Rightarrow> pair \<Rightarrow> dbl \<Rightarrow> int \<Rightarrow> run \<Rightarrow> outcome \<times> run" where
  "place_levels w sd n pair markPrice i s =
     (if js_le i n then
        (case placeOrder w pair sd ''LIMIT'' ''GTC''
                (Some (level_price sd markPrice (spread pair) i))
                (Some (level_qty (quantity pair) i)) s of
           (Done, s') \<Rightarrow> place_levels w sd n pair markPrice (i + 1) s'
         | (r, s') \<Rightarrow> (r, s'))
      else (Done, s))"
  by pat_completeness auto
termination
  by (relation "measure (\<lambda>(w, sd, n, pair, markPrice, i, s).
        case n of None \<Rightarrow> 0 | Some l \<Rightarrow> nat (l + 1 - i))")
     (auto simp: js_le_def split: option.splits)

declare place_levels.simps [simp del]

text \<open>
  The self-crossing pair of orders:
  \<^verbatim>\<open>
  const mpStr = markPrice.toFixed(4);
  await placeOrder(pair, "BUY", "LIMIT", "GTC", mpStr, pair.quantity);
  await placeOrder(pair, "SELL", "LIMIT", "GTC", mpStr, pair.quantity);
  \<close>
  and the whole \<^verbatim>\<open>try\<close> block, every step of which is awaited before the next begins.
\<close>

definition place_match :: "world \<Rightarrow> side \<Rightarrow> pair \<Rightarrow> dbl \<Rightarrow> run \<Rightarrow> outcome \<times> run" where
  "place_match w sd pair markPrice s =
     placeOrder w pair sd ''LIMIT'' ''GTC'' (Some (toFixed4 markPrice))
       (Some (NumToString (quantity pair))) s"

definition cycle_steps :: "settings \<Rightarrow> world \<Rightarrow> pair \<Rightarrow> outcome \<times> run" where
  "cycle_steps cfg w pair =
     (case mark_price pair (on_price w) \<lparr>trace = [], calls = 0\<rparr> of
        (Inl err, s0) \<Rightarrow> (Thrown err, s0)
      | (Inr markPrice, s0) \<Rightarrow>
          if falsy markPrice then (Thrown InvalidMarkPrice, s0)
          else
            and_then (cancel_orders pair (on_cancel w))
              (and_then (place_levels w BUY (LEVELS cfg) pair markPrice 1)
                 (and_then (place_levels w SELL (LEVELS cfg) pair markPrice 1)
                    (and_then (place_match w BUY pair markPrice)
                       (place_match w SELL pair markPrice)))) s0)"

text \<open>
  \<^verbatim>\<open>
  const pairStates = {};
  PAIRS.forEach(p => pairStates[p.symbol] = { consecutiveErrors: 0 });

  async function cycleForPair(pair) {
      const state = pairStates[pair.symbol];
      try {
          ...
          state.consecutiveErrors = 0; // reset on success
      } catch (err) {
          state.consecutiveErrors++;
          const msg = `[${pair.symbol}] Cycle #${cycleCount} error (${state.consecutiveErrors}/${MAX_ERRORS}): ${err.message}`;
          console.error(...);
          await sendTelegram(...);
          if (state.consecutiveErrors >= MAX_ERRORS) {
              const fatal = `[${pair.symbol}] Stopping after ${MAX_ERRORS} errors. Last: ${err.message}`;
              console.error(...);
              await sendTelegram(...);
              clearInterval(timer);
              process.exit(1);
          }
      }
  }
  \<close>
  \<open>pairStates\<close> maps a symbol to the counter \<^verbatim>\<open>consecutiveErrors\<close> of its state object.
  The result is what the cycle was seen to do, the new \<open>pairStates\<close> and the exit status
  of the process when the cycle ends it. A pair without a state object has no counter to
  write: the assignment throws inside \<^verbatim>\<open>try\<close> and again inside \<^verbatim>\<open>catch\<close>, and the
  cycle ends there.
\<close>

definition cycleForPair ::
  "settings \<Rightarrow> world \<Rightarrow> pair \<Rightarrow> (string \<rightharpoonup> nat) \<Rightarrow> event list \<times> (string \<rightharpoonup> nat) \<times> int option" where
  "cycleForPair cfg w pair pairStates =
     (case cycle_steps cfg w pair of
        (r, s) \<Rightarrow>
          (case pairStates (symbol pair) of
             None \<Rightarrow> (trace s, pairStates, case r of Exited c \<Rightarrow> Some c | _ \<Rightarrow> None)
           | Some consecutiveErrors \<Rightarrow>
               (case r of
                  Done \<Rightarrow> (trace s, pairStates(symbol pair \<mapsto> 0), None)
                | Exited c \<Rightarrow> (trace s, pairStates, Some c)
                | Thrown err \<Rightarrow>
                    (let n = Suc consecutiveErrors;
                         states = pairStates(symbol pair \<mapsto> n);
                         tr = trace s @ [Alerted (CycleError n err)]
                     in if js_ge n (MAX_ERRORS cfg)
                        then (tr @ [Alerted (Stopping err)], states, Some 1)
                        else (tr, states, None)))))"

subsection \<open>The orders of a cycle, as a list\<close>

text \<open>
  The orders a cycle with mark price \<open>markPrice\<close> sends when none fails, written without
  the loops: the bid ladder, the ask ladder, the two matching orders.
\<close>

definition ladder_order :: "pair \<Rightarrow> dbl \<Rightarrow> side \<Rightarrow> int \<Rightarrow> order" where
  "ladder_order pair markPrice sd i =
     \<lparr>o_productId = productId pair,
      o_quantity = level_qty (quantity pair) i,
      o_side = sd,
      o_symbol = backend (getSymbols (symbol pair)),
      o_type = ''LIMIT'',
      o_timeInForce = Some ''GTC'',
      o_price = Some (level_price sd markPrice (spread pair) i)\<rparr>"

definition match_order :: "pair \<Rightarrow> dbl \<Rightarrow> side \<Rightarrow> order" where
  "match_order pair markPrice sd =
     \<lparr>o_productId = productId pair,
      o_quantity = NumToString (quantity pair),
      o_side = sd,
      o_symbol = backend (getSymbols (symbol pair)),
      o_type = ''LIMIT'',
      o_timeInForce = Some ''GTC'',
      o_price = Some (toFixed4 markPrice)\<rparr>"

definition level_list :: "int option \<Rightarrow> int list" where
  "level_list n = (case n of None \<Rightarrow> [] | Some l \<Rightarrow> [1..l])"

definition cycle_orders :: "settings \<Rightarrow> pair \<Rightarrow> dbl \<Rightarrow> order list" where
  "cycle_orders cfg pair markPrice =
     map (ladder_order pair markPrice BUY) (level_list (LEVELS cfg)) @
     map (ladder_order pair markPrice SELL) (level_list (LEVELS cfg)) @
     [match_order pair markPrice BUY, match_order pair markPrice SELL]"

fun post_orders :: "world \<Rightarrow> order list \<Rightarrow> run \<Rightarrow> outcome \<times> run" where
  "post_orders w [] s = (Done, s)"
| "post_orders w (ord # ords) s =
     (case post_order w ord s of (Done, s') \<Rightarrow> post_orders w ords s' | (r, s') \<Rightarrow> (r, s'))"

text \<open>The order events of a trace.\<close>

fun sent_orders :: "event list \<Rightarrow> order list" where
  "sent_orders [] = []"
| "sent_orders (OrderSent ord # es) = ord # sent_orders es"
| "sent_orders (e # es) = sent_orders es"

text \<open>
  The words of the specification for the price of level \<open>i\<close> of the ladder, in exact
  arithmetic: \<open>markPrice \<times> (1 - spread \<times> i)\<close> for a bid and \<open>markPrice \<times> (1 + spread \<times> i)\<close>
  for an ask.
\<close>

definition ladder_price_spec :: "side \<Rightarrow> rat \<Rightarrow> rat \<Rightarrow> int \<Rightarrow> rat" where
  "ladder_price_spec sd markPrice sp i =
     (case sd of BUY \<Rightarrow> markPrice * (1 - sp * of_int i) | SELL \<Rightarrow> markPrice * (1 + sp * of_int i))"

text \<open>The number a string of \<^verbatim>\<open>toFixed\<close> denotes, when it denotes one.\<close>

fun numstr_value :: "numstr \<Rightarrow> rat option" where
  "numstr_value (Fixed neg n) = Some (fixed_value neg n)"
| "numstr_value (NumToString (Fin m t)) = Some (fin_value m t)"
| "numstr_value (NumToString x) = None"

section \<open>The configuration of the source, and stand-ins for the platform\<close>

text \<open>
  \<^verbatim>\<open>
  const LEVELS = parseInt(process.env.LEVELS ?? "5", 10);
  const MAX_ERRORS = parseInt(process.env.MAX_ERRORS ?? "5", 10);
  const SPREAD = parseFloat(process.env.SPREAD ?? "0.001");
  let PAIRS = [
      { symbol: "BTC-USDC", productId: 2, spread: SPREAD, quantity: 0.0123 },
      { symbol: "ETH-USDC", productId: 4, spread: SPREAD, quantity: 0.2 },
      { symbol: "SOL-USDC", productId: 6, spread: SPREAD, quantity: 1.5 },
      { symbol: "0G-USDC",  productId: 8, spread: SPREAD, quantity: 100 }
  ];
  \<close>
  with no variable of the environment set.
\<close>

definition SPREAD :: dbl where
  "SPREAD = round_frac 1 1000"

definition PAIRS :: "pair list" where
  "PAIRS =
     [\<lparr>symbol = ''BTC-USDC'', productId = 2, spread = SPREAD, quantity = round_frac 123 10000\<rparr>,
      \<lparr>symbol = ''ETH-USDC'', productId = 4, spread = SPREAD, quantity = round_frac 2 10\<rparr>,
      \<lparr>symbol = ''SOL-USDC'', productId = 6, spread = SPREAD, quantity = round_frac 15 10\<rparr>,
      \<lparr>symbol = ''0G-USDC'', productId = 8, spread = SPREAD, quantity = dbl_of_int 100\<rparr>]"

definition defaults :: settings where
  "defaults = \<lparr>LEVELS = Some 5, MAX_ERRORS = Some 5\<rparr>"

text \<open>An exchange that gives every order request the same answer.\<close>

definition always :: "'a \<Rightarrow> nat \<Rightarrow> 'a" where
  "always r k = r"

text \<open>An exchange that answers the order request number \<open>k\<close> with \<open>r\<close> and accepts the others.\<close>

definition only_at :: "nat \<Rightarrow> reply \<Rightarrow> nat \<Rightarrow> reply" where
  "only_at k r j = (if j = k then r else Status 200)"



section \<open>Properties of the request signer\<close>

subsection \<open>The sort\<close>

lemma mset_insort_entry: "mset (insort_entry cmp x ys) = add_mset x (mset ys)"
  by (induction ys) auto

lemma mset_sort_entries: "mset (sort_entries cmp xs) = mset xs"
  by (induction xs) (auto simp: sort_entries_def mset_insort_entry)

lemma set_sort_entries: "set (sort_entries cmp xs) = set xs"
  using mset_sort_entries[of cmp xs] by (metis set_mset_mset)

lemma set_insort_entry: "set (insort_entry cmp x ys) = insert x (set ys)"
  by (induction ys) auto

lemma orders_keys_consistent: "orders_keys cmp K \<Longrightarrow> consistent_keys cmp K"
  unfolding orders_keys_def consistent_keys_def by (elim conjE) (rule conjI)

lemma sorted_insort_entry:
  assumes "consistent_keys cmp K" "fst x \<in> K" "fst ` set ys \<subseteq> K" "sorted_wrt (key_le cmp) ys"
  shows "sorted_wrt (key_le cmp) (insort_entry cmp x ys)"
  using assms(3,4)
proof (induction ys)
  case Nil
  then show ?case by simp
next
  case (Cons y ys)
  have yK: "fst y \<in> K" using Cons.prems by simp
  show ?case
  proof (cases "cmp (fst x) (fst y) \<le> 0")
    case True
    have "\<forall>z\<in>set ys. key_le cmp x z"
    proof
      fix z assume z: "z \<in> set ys"
      then have "fst z \<in> K" using Cons.prems by auto
      moreover have "cmp (fst y) (fst z) \<le> 0" using Cons.prems z by (auto simp: key_le_def)
      ultimately show "key_le cmp x z"
        using assms(1,2) yK True unfolding consistent_keys_def key_le_def by blast
    qed
    then show ?thesis using True Cons.prems by (auto simp: key_le_def)
  next
    case False
    then have "cmp (fst y) (fst x) \<le> 0"
      using assms(1,2) yK unfolding consistent_keys_def by blast
    then show ?thesis using False Cons by (auto simp: set_insort_entry key_le_def)
  qed
qed

lemma sorted_sort_entries:
  assumes "consistent_keys cmp K" "fst ` set xs \<subseteq> K"
  shows "sorted_wrt (key_le cmp) (sort_entries cmp xs)"
  using assms(2)
proof (induction xs)
  case Nil
  then show ?case by (simp add: sort_entries_def)
next
  case (Cons x xs)
  have "sorted_wrt (key_le cmp) (insort_entry cmp x (sort_entries cmp xs))"
  proof (rule sorted_insort_entry[OF assms(1)])
    show "fst x \<in> K" using Cons.prems by simp
    show "fst ` set (sort_entries cmp xs) \<subseteq> K" using Cons.prems by (auto simp: set_sort_entries)
    show "sorted_wrt (key_le cmp) (sort_entries cmp xs)" using Cons by simp
  qed
  then show ?case by (simp add: sort_entries_def)
qed

lemma sorted_entries_unique:
  assumes "orders_keys cmp K"
  shows "fst ` set xs \<subseteq> K \<Longrightarrow> distinct (map fst xs) \<Longrightarrow> mset xs = mset ys \<Longrightarrow>
         sorted_wrt (key_le cmp) xs \<Longrightarrow> sorted_wrt (key_le cmp) ys \<Longrightarrow> xs = ys"
proof (induction xs arbitrary: ys)
  case Nil
  then show ?case by simp
next
  case (Cons x xs)
  from Cons.prems(3) obtain y ys' where ys: "ys = y # ys'"
    by (cases ys) auto
  have seteq: "set (x # xs) = set ys" using Cons.prems(3) by (metis set_mset_mset)
  have xy: "x = y"
  proof (rule ccontr)
    assume ne: "x \<noteq> y"
    then have "x \<in> set ys'" using seteq ys by auto
    then have 1: "cmp (fst y) (fst x) \<le> 0" using Cons.prems(5) ys by (auto simp: key_le_def)
    have "y \<in> set xs" using seteq ys ne by auto
    then have 2: "cmp (fst x) (fst y) \<le> 0" and yin: "y \<in> set xs"
      using Cons.prems(4) by (auto simp: key_le_def)
    have "fst x \<in> K" "fst y \<in> K" using Cons.prems(1) yin by auto
    then have "fst x = fst y" using assms 1 2 unfolding orders_keys_def by blast
    then show False using Cons.prems(2) yin by (metis distinct.simps(2) image_eqI list.simps(9) set_map)
  qed
  have "xs = ys'"
  proof (rule Cons.IH)
    show "fst ` set xs \<subseteq> K" using Cons.prems(1) by auto
    show "distinct (map fst xs)" using Cons.prems(2) by simp
    show "mset xs = mset ys'" using Cons.prems(3) ys xy by simp
    show "sorted_wrt (key_le cmp) xs" using Cons.prems(4) by simp
    show "sorted_wrt (key_le cmp) ys'" using Cons.prems(5) ys by simp
  qed
  then show ?case using xy ys by simp
qed

lemma distinct_keys_mset:
  "mset xs = mset ys \<Longrightarrow> distinct (map fst xs) \<Longrightarrow> distinct (map fst ys)"
  by (metis distinct_map mset_eq_setD mset_eq_imp_distinct_iff)

lemma distinct_keys_filter: "distinct (map fst xs) \<Longrightarrow> distinct (map fst (filter P xs))"
  by (simp add: distinct_map_filter)

lemma sort_entries_reorder:
  assumes "orders_keys cmp K" "fst ` set xs \<subseteq> K" "distinct (map fst xs)" "mset ys = mset xs"
  shows "sort_entries cmp ys = sort_entries cmp xs"
proof (rule sorted_entries_unique[OF assms(1)])
  have sety: "set ys = set xs" using assms(4) by (metis set_mset_mset)
  show "fst ` set (sort_entries cmp ys) \<subseteq> K" using assms(2) sety by (simp add: set_sort_entries)
  have "distinct (map fst ys)" using assms(3,4) distinct_keys_mset[of xs ys] by simp
  then show "distinct (map fst (sort_entries cmp ys))"
    using distinct_keys_mset[of ys "sort_entries cmp ys"] by (simp add: mset_sort_entries)
  show "mset (sort_entries cmp ys) = mset (sort_entries cmp xs)"
    using assms(4) by (simp add: mset_sort_entries)
  show "sorted_wrt (key_le cmp) (sort_entries cmp ys)"
    using sorted_sort_entries[OF orders_keys_consistent[OF assms(1)], of ys] assms(2) sety by simp
  show "sorted_wrt (key_le cmp) (sort_entries cmp xs)"
    using sorted_sort_entries[OF orders_keys_consistent[OF assms(1)]] assms(2) by simp
qed

text \<open>The sort is stable: the entries whose keys are tied with a key keep their order.\<close>

lemma filter_insort_entry:
  assumes "consistent_keys cmp K" "fst x \<in> K" "k \<in> K"
  shows "fst ` set ys \<subseteq> K \<Longrightarrow>
         filter (\<lambda>e. tied cmp k (fst e)) (insort_entry cmp x ys) =
         filter (\<lambda>e. tied cmp k (fst e)) (x # ys)"
proof (induction ys)
  case Nil
  then show ?case by simp
next
  case (Cons y ys)
  have yK: "fst y \<in> K" using Cons.prems by simp
  show ?case
  proof (cases "cmp (fst x) (fst y) \<le> 0")
    case True
    then show ?thesis by simp
  next
    case False
    have ih: "filter (\<lambda>e. tied cmp k (fst e)) (insort_entry cmp x ys) =
              filter (\<lambda>e. tied cmp k (fst e)) (x # ys)"
      using Cons by simp
    have "\<not> (tied cmp k (fst x) \<and> tied cmp k (fst y))"
    proof
      assume t: "tied cmp k (fst x) \<and> tied cmp k (fst y)"
      then have "cmp (fst x) k \<le> 0" "cmp k (fst y) \<le> 0" by (simp_all add: tied_def)
      then have "cmp (fst x) (fst y) \<le> 0"
        using assms yK unfolding consistent_keys_def by blast
      then show False using False by simp
    qed
    then show ?thesis using False ih by auto
  qed
qed

lemma filter_sort_entries:
  assumes "consistent_keys cmp K" "k \<in> K"
  shows "fst ` set xs \<subseteq> K \<Longrightarrow>
         filter (\<lambda>e. tied cmp k (fst e)) (sort_entries cmp xs) = filter (\<lambda>e. tied cmp k (fst e)) xs"
proof (induction xs)
  case Nil
  then show ?case by (simp add: sort_entries_def)
next
  case (Cons x xs)
  have 1: "fst x \<in> K" and 2: "fst ` set (sort_entries cmp xs) \<subseteq> K"
    using Cons.prems by (auto simp: set_sort_entries)
  have "filter (\<lambda>e. tied cmp k (fst e)) (sort_entries cmp (x # xs)) =
        filter (\<lambda>e. tied cmp k (fst e)) (x # sort_entries cmp xs)"
    using filter_insort_entry[OF assms(1) 1 assms(2) 2] by (simp add: sort_entries_def)
  then show ?case using Cons by simp
qed

subsection \<open>The canonical string\<close>

lemma kv_set:
  "(\<lambda>e. (fst e, the (snd e))) ` {e \<in> set ps. snd e \<noteq> None} = {(k, v). (k, Some v) \<in> set ps}"
proof (rule set_eqI)
  fix x :: "'a \<times> 'b"
  obtain k v where x: "x = (k, v)" by (cases x)
  show "x \<in> (\<lambda>e. (fst e, the (snd e))) ` {e \<in> set ps. snd e \<noteq> None} \<longleftrightarrow> x \<in> {(k, v). (k, Some v) \<in> set ps}"
  proof
    assume "x \<in> (\<lambda>e. (fst e, the (snd e))) ` {e \<in> set ps. snd e \<noteq> None}"
    then obtain e where e: "e \<in> set ps" "snd e \<noteq> None" "x = (fst e, the (snd e))" by blast
    then have "e = (k, Some v)" using x by (cases e) auto
    then show "x \<in> {(k, v). (k, Some v) \<in> set ps}" using e x by simp
  next
    assume "x \<in> {(k, v). (k, Some v) \<in> set ps}"
    then have "(k, Some v) \<in> set ps" using x by simp
    then have "(k, Some v) \<in> {e \<in> set ps. snd e \<noteq> None}" by simp
    then have "(\<lambda>e. (fst e, the (snd e))) (k, Some v) \<in> (\<lambda>e. (fst e, the (snd e))) ` {e \<in> set ps. snd e \<noteq> None}"
      by (rule imageI)
    then show "x \<in> (\<lambda>e. (fst e, the (snd e))) ` {e \<in> set ps. snd e \<noteq> None}" using x by simp
  qed
qed

lemma key_le_fun: "key_le cmp = (\<lambda>a b. cmp (fst a) (fst b) \<le> 0)"
  by (intro ext) (simp add: key_le_def)

lemma map_entry_string:
  "\<forall>e\<in>set es. snd e \<noteq> None \<Longrightarrow>
   map entry_string es =
   map (\<lambda>(k, v). encodeURIComponent k @ ''='' @ encodeURIComponent v)
     (map (\<lambda>e. (fst e, the (snd e))) es)"
  by (induction es) (auto simp: entry_string_def to_string_def)

lemma set_entries_filter:
  "set_entries ps = map (\<lambda>e. (fst e, the (snd e))) (filter (\<lambda>e. snd e \<noteq> None) ps)"
  by (induction ps) (auto simp: set_entries_def split: option.splits)

lemma filter_map_entries:
  "filter (\<lambda>e. P (fst e)) (map (\<lambda>e. (fst e, the (snd e))) es) =
   map (\<lambda>e. (fst e, the (snd e))) (filter (\<lambda>e. P (fst e)) es)"
  by (induction es) simp_all

text \<open>
  Claim C1, as the code does it. For every parameter object and every collation, \<open>buildQS\<close>
  drops the entries whose value is unset and joins the percent-encoded \<^verbatim>\<open>key=value\<close>
  pairs of the remaining ones, each of them once, with \<^verbatim>\<open>&\<close>. When the collation is a
  consistent comparator on the keys, the pairs are in the order of the collation and the
  sort is stable: entries whose keys are tied keep the order they came in. When moreover no
  two different keys are tied (and the keys of the object are distinct, as those of an
  object are), every other ordering of the same entries gives the same string. The order is
  the one of \<^verbatim>\<open>localeCompare\<close>, which is not the byte order, and the independence of the
  input order rests on the collation's telling any two keys apart.
\<close>
theorem buildQS_canonical:
  "\<exists>kvs. buildQS cmp ps =
           join_with ''&'' (map (\<lambda>(k, v). encodeURIComponent k @ ''='' @ encodeURIComponent v) kvs) \<and>
         mset kvs = mset (set_entries ps) \<and>
         set kvs = {(k, v). (k, Some v) \<in> set ps} \<and>
         (consistent_keys cmp (fst ` set ps) \<longrightarrow>
            sorted_wrt (\<lambda>a b. cmp (fst a) (fst b) \<le> 0) kvs \<and>
            (\<forall>k\<in>fst ` set ps.
               filter (\<lambda>e. tied cmp k (fst e)) kvs = filter (\<lambda>e. tied cmp k (fst e)) (set_entries ps))) \<and>
         (orders_keys cmp (fst ` set ps) \<and> distinct (map fst ps) \<and> mset qs = mset ps \<longrightarrow>
            distinct (map fst kvs) \<and> buildQS cmp qs = buildQS cmp ps)"
proof -
  let ?f = "filter (\<lambda>e. snd e \<noteq> None) ps"
  let ?es = "sort_entries cmp ?f"
  let ?h = "\<lambda>e :: string \<times> jsval. (fst e, the (snd e))"
  let ?g = "\<lambda>(k, v). encodeURIComponent k @ ''='' @ encodeURIComponent v"
  let ?kvs = "map ?h ?es"
  have sub: "fst ` set ?f \<subseteq> fst ` set ps" by auto
  have some: "\<And>e. e \<in> set ?es \<Longrightarrow> snd e \<noteq> None" by (simp add: set_sort_entries)
  have m: "map entry_string ?es = map ?g ?kvs"
    by (rule map_entry_string) (use some in blast)
  have 1: "buildQS cmp ps = join_with ''&'' (map ?g ?kvs)"
    unfolding buildQS_def by (simp only: m)
  have "mset ?kvs = image_mset ?h (mset ?f)" by (simp add: mset_sort_entries)
  then have 2: "mset ?kvs = mset (set_entries ps)" by (simp add: set_entries_filter)
  have "set ?kvs = ?h ` {e \<in> set ps. snd e \<noteq> None}" by (simp add: set_sort_entries)
  then have 3: "set ?kvs = {(k, v). (k, Some v) \<in> set ps}" by (simp only: kv_set)
  have 4: "consistent_keys cmp (fst ` set ps) \<longrightarrow>
      sorted_wrt (\<lambda>a b. cmp (fst a) (fst b) \<le> 0) ?kvs \<and>
      (\<forall>k\<in>fst ` set ps.
         filter (\<lambda>e. tied cmp k (fst e)) ?kvs = filter (\<lambda>e. tied cmp k (fst e)) (set_entries ps))"
  proof
    assume c: "consistent_keys cmp (fst ` set ps)"
    have "sorted_wrt (key_le cmp) ?es"
      using sorted_sort_entries[OF c sub] .
    then have a: "sorted_wrt (\<lambda>a b. cmp (fst a) (fst b) \<le> 0) ?kvs"
      by (simp add: sorted_wrt_map key_le_fun)
    have b: "\<forall>k\<in>fst ` set ps.
         filter (\<lambda>e. tied cmp k (fst e)) ?kvs = filter (\<lambda>e. tied cmp k (fst e)) (set_entries ps)"
    proof
      fix k assume k: "k \<in> fst ` set ps"
      have "filter (\<lambda>e. tied cmp k (fst e)) ?es = filter (\<lambda>e. tied cmp k (fst e)) ?f"
        using filter_sort_entries[OF c k sub] .
      then have "map ?h (filter (\<lambda>e. tied cmp k (fst e)) ?es) =
                 map ?h (filter (\<lambda>e. tied cmp k (fst e)) ?f)" by (simp only:)
      then show "filter (\<lambda>e. tied cmp k (fst e)) ?kvs =
                 filter (\<lambda>e. tied cmp k (fst e)) (set_entries ps)"
        by (simp only: filter_map_entries[where P = "tied cmp k"] set_entries_filter)
    qed
    show "sorted_wrt (\<lambda>a b. cmp (fst a) (fst b) \<le> 0) ?kvs \<and>
      (\<forall>k\<in>fst ` set ps.
         filter (\<lambda>e. tied cmp k (fst e)) ?kvs = filter (\<lambda>e. tied cmp k (fst e)) (set_entries ps))"
      using a b by (rule conjI)
  qed
  have 5: "orders_keys cmp (fst ` set ps) \<and> distinct (map fst ps) \<and> mset qs = mset ps \<longrightarrow>
      distinct (map fst ?kvs) \<and> buildQS cmp qs = buildQS cmp ps"
  proof
    assume h: "orders_keys cmp (fst ` set ps) \<and> distinct (map fst ps) \<and> mset qs = mset ps"
    then have o: "orders_keys cmp (fst ` set ps)" and d: "distinct (map fst ps)"
      and q: "mset qs = mset ps" by simp_all
    have "map fst ?kvs = map fst ?es" by (simp add: comp_def)
    moreover have "distinct (map fst ?es)"
      using distinct_keys_mset[of ?f ?es] distinct_keys_filter[OF d]
      by (simp add: mset_sort_entries)
    ultimately have a: "distinct (map fst ?kvs)" by (simp only:)
    have "mset (filter (\<lambda>e. snd e \<noteq> None) qs) = mset ?f" using q by simp
    then have "sort_entries cmp (filter (\<lambda>e. snd e \<noteq> None) qs) = ?es"
      using sort_entries_reorder[OF o sub distinct_keys_filter[OF d]] by blast
    then have "buildQS cmp qs = buildQS cmp ps" by (simp add: buildQS_def)
    then show "distinct (map fst ?kvs) \<and> buildQS cmp qs = buildQS cmp ps" using a by simp
  qed
  show ?thesis using 1 2 3 4 5 by (intro exI[of _ ?kvs] conjI)
qed

text \<open>
  Three keys of an order request: the entry without a value is dropped and both orderings
  give \<^verbatim>\<open>side=BUY&symbol=BTCUSDCPERP\<close>.
\<close>
theorem buildQS_canonical_witness:
  "consistent_keys localeCompare_letters
     (fst ` set [(''symbol'', Some ''BTCUSDCPERP''), (''side'', Some ''BUY''), (''price'', None)]) \<and>
   orders_keys localeCompare_letters
     (fst ` set [(''symbol'', Some ''BTCUSDCPERP''), (''side'', Some ''BUY''), (''price'', None)]) \<and>
   distinct (map fst [(''symbol'', Some ''BTCUSDCPERP''), (''side'', Some ''BUY''), (''price'', None)]) \<and>
   mset [(''price'', None), (''side'', Some ''BUY''), (''symbol'', Some ''BTCUSDCPERP'')] =
   mset [(''symbol'', Some ''BTCUSDCPERP''), (''side'', Some ''BUY''), (''price'', None)] \<and>
   set_entries [(''symbol'', Some ''BTCUSDCPERP''), (''side'', Some ''BUY''), (''price'', None)] =
     [(''symbol'', ''BTCUSDCPERP''), (''side'', ''BUY'')] \<and>
   buildQS localeCompare_letters [(''price'', None), (''side'', Some ''BUY''), (''symbol'', Some ''BTCUSDCPERP'')] =
   buildQS localeCompare_letters [(''symbol'', Some ''BTCUSDCPERP''), (''side'', Some ''BUY''), (''price'', None)] \<and>
   buildQS localeCompare_letters [(''symbol'', Some ''BTCUSDCPERP''), (''side'', Some ''BUY''), (''price'', None)] =
   ''side=BUY&symbol=BTCUSDCPERP''"
proof -
  have d: "distinct (map fst [(''symbol'', Some ''BTCUSDCPERP''), (''side'', Some ''BUY''), (''price'', None :: string option)])"
    by simp
  have o: "orders_keys localeCompare_letters
     (fst ` set [(''symbol'', Some ''BTCUSDCPERP''), (''side'', Some ''BUY''), (''price'', None :: string option)])"
    by code_simp
  have c: "consistent_keys localeCompare_letters
     (fst ` set [(''symbol'', Some ''BTCUSDCPERP''), (''side'', Some ''BUY''), (''price'', None :: string option)])"
    using o by (rule orders_keys_consistent)
  have m: "mset [(''price'', None), (''side'', Some ''BUY''), (''symbol'', Some ''BTCUSDCPERP'')] =
   mset [(''symbol'', Some ''BTCUSDCPERP''), (''side'', Some ''BUY''), (''price'', None :: string option)]"
    by simp
  have e: "set_entries [(''symbol'', Some ''BTCUSDCPERP''), (''side'', Some ''BUY''), (''price'', None)] =
     [(''symbol'', ''BTCUSDCPERP''), (''side'', ''BUY'')]"
    by (simp add: set_entries_def)
  have v: "buildQS localeCompare_letters [(''symbol'', Some ''BTCUSDCPERP''), (''side'', Some ''BUY''), (''price'', None)] =
   ''side=BUY&symbol=BTCUSDCPERP''"
    by code_simp
  have "buildQS localeCompare_letters [(''price'', None), (''side'', Some ''BUY''), (''symbol'', Some ''BTCUSDCPERP'')] =
   buildQS localeCompare_letters [(''symbol'', Some ''BTCUSDCPERP''), (''side'', Some ''BUY''), (''price'', None)]"
    using buildQS_canonical[of localeCompare_letters
        "[(''symbol'', Some ''BTCUSDCPERP''), (''side'', Some ''BUY''), (''price'', None)]"
        "[(''price'', None), (''side'', Some ''BUY''), (''symbol'', Some ''BTCUSDCPERP'')]"] d o m
    by blast
  then show ?thesis using c o d m e v by blast
qed

text \<open>
  Sorting by key in byte order is not what the code does for every parameter object: with
  the keys \<^verbatim>\<open>B\<close> and \<^verbatim>\<open>a\<close> the collation puts \<^verbatim>\<open>a\<close> first, the byte order
  \<^verbatim>\<open>B\<close>. And the canonical string is not the same for every ordering of the same
  entries: the two spellings of the letter \<^verbatim>\<open>e\<close> with an acute accent are different
  keys that are tied, the stable sort leaves them as they come, and the two orderings of
  the same two entries give two strings.
\<close>
theorem buildQS_collation_counterexample:
  "buildQS localeCompare_letters [(''B'', Some ''1''), (''a'', Some ''2'')] = ''a=2&B=1'' \<and>
   canonicalize_spec [(''B'', Some ''1''), (''a'', Some ''2'')] = ''B=1&a=2'' \<and>
   [CHR 0xC3, CHR 0xA9] \<noteq> [CHR ''e'', CHR 0xCC, CHR 0x81] \<and>
   localeCompare_accents [CHR 0xC3, CHR 0xA9] [CHR ''e'', CHR 0xCC, CHR 0x81] = 0 \<and>
   localeCompare_accents [CHR ''e'', CHR 0xCC, CHR 0x81] [CHR 0xC3, CHR 0xA9] = 0 \<and>
   mset [([CHR 0xC3, CHR 0xA9], Some ''1''), ([CHR ''e'', CHR 0xCC, CHR 0x81], Some ''2'')] =
   mset [([CHR ''e'', CHR 0xCC, CHR 0x81], Some ''2''), ([CHR 0xC3, CHR 0xA9], Some ''1'')] \<and>
   buildQS localeCompare_accents
     [([CHR 0xC3, CHR 0xA9], Some ''1''), ([CHR ''e'', CHR 0xCC, CHR 0x81], Some ''2'')] =
     ''%C3%A9=1&e%CC%81=2'' \<and>
   buildQS localeCompare_accents
     [([CHR ''e'', CHR 0xCC, CHR 0x81], Some ''2''), ([CHR 0xC3, CHR 0xA9], Some ''1'')] =
     ''e%CC%81=2&%C3%A9=1''"
  by code_simp

text \<open>
  On the keys of the requests the program itself sends, the collation and the byte order
  agree, and so do the two canonical forms of an order request.
\<close>

lemma request_keys_agree:
  "list_all (\<lambda>a. list_all (\<lambda>b. (localeCompare_letters a b \<le> 0) = (byte_compare a b \<le> 0))
      [''productId'', ''quantity'', ''side'', ''symbol'', ''type'', ''timeInForce'', ''price'', ''timestamp''])
    [''productId'', ''quantity'', ''side'', ''symbol'', ''type'', ''timeInForce'', ''price'', ''timestamp'']"
  by code_simp

lemma order_request_canonical:
  "buildQS localeCompare_letters
     [(''productId'', Some ''2''), (''quantity'', Some ''0.0123''), (''side'', Some ''BUY''),
      (''symbol'', Some ''BTCUSDCPERP''), (''type'', Some ''LIMIT''), (''timeInForce'', Some ''GTC''),
      (''price'', Some ''49950.0000''), (''timestamp'', Some ''1700000000000'')] =
   ''price=49950.0000&productId=2&quantity=0.0123&side=BUY&symbol=BTCUSDCPERP&timeInForce=GTC&timestamp=1700000000000&type=LIMIT''"
  by code_simp

lemma order_request_canonical_spec:
  "canonicalize_spec
     [(''productId'', Some ''2''), (''quantity'', Some ''0.0123''), (''side'', Some ''BUY''),
      (''symbol'', Some ''BTCUSDCPERP''), (''type'', Some ''LIMIT''), (''timeInForce'', Some ''GTC''),
      (''price'', Some ''49950.0000''), (''timestamp'', Some ''1700000000000'')] =
   ''price=49950.0000&productId=2&quantity=0.0123&side=BUY&symbol=BTCUSDCPERP&timeInForce=GTC&timestamp=1700000000000&type=LIMIT''"
  by code_simp

subsection \<open>Decimal numerals\<close>











subsection \<open>The time stamp in the payload\<close>












section \<open>Properties of the cycle\<close>

subsection \<open>The loops send the list of orders\<close>

lemma placeOrder_ladder:
  "placeOrder w pair sd ''LIMIT'' ''GTC'' (Some (level_price sd markPrice (spread pair) i))
     (Some (level_qty (quantity pair) i)) s =
   post_order w (ladder_order pair markPrice sd i) s"
  by (simp add: placeOrder_def order_params_def ladder_order_def)

lemma place_match_post:
  "place_match w sd pair markPrice s = post_order w (match_order pair markPrice sd) s"
  by (simp add: place_match_def placeOrder_def order_params_def match_order_def)

lemma place_levels_post_orders:
  "place_levels w sd n pair markPrice i s =
   post_orders w (map (ladder_order pair markPrice sd) (case n of None \<Rightarrow> [] | Some l \<Rightarrow> [i..l])) s"
proof (induction w sd n pair markPrice i s rule: place_levels.induct)
  case (1 w sd n pair markPrice i s)
  show ?case
  proof (cases "js_le i n")
    case False
    then have "(case n of None \<Rightarrow> [] | Some l \<Rightarrow> [i..l]) = []"
      by (auto simp: js_le_def split: option.splits)
    then show ?thesis using False by (simp add: place_levels.simps[of w sd n pair markPrice i s])
  next
    case True
    then obtain l where n: "n = Some l" and il: "i \<le> l"
      by (auto simp: js_le_def split: option.splits)
    have up: "[i..l] = i # [i + 1..l]" using il by (simp add: upto_rec1)
    show ?thesis
    proof (cases "post_order w (ladder_order pair markPrice sd i) s")
      case (Pair r s')
      show ?thesis
      proof (cases "r = Done")
        case d: True
        have "place_levels w sd n pair markPrice i s = place_levels w sd n pair markPrice (i + 1) s'"
          using True Pair d
          by (simp add: place_levels.simps[of w sd n pair markPrice i s] placeOrder_ladder)
        also have "\<dots> = post_orders w (map (ladder_order pair markPrice sd) [i + 1..l]) s'"
        proof -
          have "(r, s') = placeOrder w pair sd ''LIMIT'' ''GTC''
              (Some (level_price sd markPrice (spread pair) i))
              (Some (level_qty (quantity pair) i)) s"
            using Pair by (simp add: placeOrder_ladder)
          from "1.IH"[OF True this d] show ?thesis using n by simp
        qed
        finally show ?thesis using n up Pair d by simp
      next
        case nd: False
        have "place_levels w sd n pair markPrice i s = (r, s')"
          using True Pair nd
          by (simp add: place_levels.simps[of w sd n pair markPrice i s] placeOrder_ladder
              split: outcome.splits)
        then show ?thesis using n up Pair nd by (simp split: outcome.splits)
      qed
    qed
  qed
qed

lemma place_levels_from_one:
  "place_levels w sd n pair markPrice 1 =
   post_orders w (map (ladder_order pair markPrice sd) (level_list n))"
  by (rule ext) (simp add: place_levels_post_orders level_list_def)

lemma post_orders_append:
  "and_then (post_orders w xs) (post_orders w ys) s = post_orders w (xs @ ys) s"
proof (induction xs arbitrary: s)
  case Nil
  show ?case by (simp add: and_then_def)
next
  case (Cons x xs)
  show ?case
  proof (cases "post_order w x s")
    case (Pair r s')
    show ?thesis
    proof (cases "r = Done")
      case True
      then show ?thesis using Pair Cons[of s'] by (simp add: and_then_def)
    next
      case False
      then show ?thesis using Pair by (simp add: and_then_def split: outcome.splits)
    qed
  qed
qed

lemma post_orders_single: "post_order w x = post_orders w [x]"
  by (rule ext) (simp split: prod.splits outcome.splits)

lemma ladder_and_match:
  "and_then (place_levels w BUY n pair markPrice 1)
     (and_then (place_levels w SELL n pair markPrice 1)
        (and_then (place_match w BUY pair markPrice) (place_match w SELL pair markPrice))) =
   post_orders w
     (map (ladder_order pair markPrice BUY) (level_list n) @
      map (ladder_order pair markPrice SELL) (level_list n) @
      [match_order pair markPrice BUY, match_order pair markPrice SELL])"
proof -
  have m: "place_match w BUY pair markPrice = post_orders w [match_order pair markPrice BUY]"
    "place_match w SELL pair markPrice = post_orders w [match_order pair markPrice SELL]"
    by (rule ext, simp add: place_match_post split: prod.splits outcome.splits)+
  have a: "\<And>xs ys. and_then (post_orders w xs) (post_orders w ys) = post_orders w (xs @ ys)"
    by (rule ext) (rule post_orders_append)
  show ?thesis by (simp only: place_levels_from_one m a append_Cons append_Nil)
qed

lemma post_order_ok:
  "on_order w (calls s) = Status st \<Longrightarrow> ok st \<Longrightarrow>
   post_order w ord s = (Done, s\<lparr>trace := trace s @ [OrderSent ord], calls := Suc (calls s)\<rparr>)"
  by (simp add: post_order_def)

lemma post_order_401:
  "on_order w (calls s) = Status 401 \<Longrightarrow> on_text w (calls s) \<Longrightarrow>
   post_order w ord s =
   (Exited 0, s\<lparr>trace := trace s @ [OrderSent ord, Alerted KeyExpired], calls := Suc (calls s)\<rparr>)"
  by (simp add: post_order_def ok_def)

lemma post_order_unread:
  "on_order w (calls s) = Status st \<Longrightarrow> \<not> ok st \<Longrightarrow> \<not> on_text w (calls s) \<Longrightarrow>
   post_order w ord s =
   (Thrown TextFailed, s\<lparr>trace := trace s @ [OrderSent ord], calls := Suc (calls s)\<rparr>)"
  by (simp add: post_order_def)

lemma post_order_Done:
  "post_order w ord s = (Done, s') \<Longrightarrow>
   (\<exists>st. on_order w (calls s) = Status st \<and> ok st) \<and>
   s' = s\<lparr>trace := trace s @ [OrderSent ord], calls := Suc (calls s)\<rparr>"
  by (auto simp: post_order_def Let_def split: reply.splits if_splits)

lemma post_orders_all_ok:
  "\<forall>j<length os. \<exists>st. on_order w (calls s + j) = Status st \<and> ok st \<Longrightarrow>
   post_orders w os s =
   (Done, s\<lparr>trace := trace s @ map OrderSent os, calls := calls s + length os\<rparr>)"
proof (induction os arbitrary: s)
  case Nil
  show ?case by simp
next
  case (Cons x xs)
  from Cons.prems have "\<exists>st. on_order w (calls s + 0) = Status st \<and> ok st" by blast
  then obtain st where st: "on_order w (calls s) = Status st" "ok st" by auto
  let ?s1 = "s\<lparr>trace := trace s @ [OrderSent x], calls := Suc (calls s)\<rparr>"
  have p: "post_order w x s = (Done, ?s1)" using st by (rule post_order_ok[of w s])
  have "\<forall>j<length xs. \<exists>st. on_order w (calls ?s1 + j) = Status st \<and> ok st"
  proof (intro allI impI)
    fix j assume "j < length xs"
    then have "Suc j < length (x # xs)" by simp
    then have "\<exists>st. on_order w (calls s + Suc j) = Status st \<and> ok st" using Cons.prems by blast
    then show "\<exists>st. on_order w (calls ?s1 + j) = Status st \<and> ok st" by simp
  qed
  from Cons.IH[OF this] show ?case using p by simp
qed

lemma post_orders_Done:
  "post_orders w os s = (Done, s') \<Longrightarrow>
   s' = s\<lparr>trace := trace s @ map OrderSent os, calls := calls s + length os\<rparr> \<and>
   (\<forall>j<length os. \<exists>st. on_order w (calls s + j) = Status st \<and> ok st)"
proof (induction os arbitrary: s)
  case Nil
  then show ?case by simp
next
  case (Cons x xs)
  obtain r s1 where p: "post_order w x s = (r, s1)" by (cases "post_order w x s")
  have r: "r = Done" using Cons.prems p by (cases r) auto
  then have rest: "post_orders w xs s1 = (Done, s')" using Cons.prems p by simp
  from post_order_Done[OF p[unfolded r]]
  have st: "\<exists>st. on_order w (calls s) = Status st \<and> ok st"
    and s1: "s1 = s\<lparr>trace := trace s @ [OrderSent x], calls := Suc (calls s)\<rparr>" by simp_all
  from Cons.IH[OF rest]
  have s': "s' = s1\<lparr>trace := trace s1 @ map OrderSent xs, calls := calls s1 + length xs\<rparr>"
    and oks: "\<forall>j<length xs. \<exists>st. on_order w (calls s1 + j) = Status st \<and> ok st" by simp_all
  have "\<forall>j<length (x # xs). \<exists>st. on_order w (calls s + j) = Status st \<and> ok st"
  proof (intro allI impI)
    fix j assume j: "j < length (x # xs)"
    show "\<exists>st. on_order w (calls s + j) = Status st \<and> ok st"
    proof (cases j)
      case 0
      then show ?thesis using st by simp
    next
      case (Suc i)
      then have "i < length xs" using j by simp
      then show ?thesis using oks s1 Suc by auto
    qed
  qed
  then show ?case using s' s1 by simp
qed

lemma post_orders_401:
  "k < length os \<Longrightarrow> \<forall>j<k. \<exists>st. on_order w (calls s + j) = Status st \<and> ok st \<Longrightarrow>
   on_order w (calls s + k) = Status 401 \<Longrightarrow> on_text w (calls s + k) \<Longrightarrow>
   post_orders w os s =
   (Exited 0, s\<lparr>trace := trace s @ map OrderSent (take (Suc k) os) @ [Alerted KeyExpired],
                calls := calls s + Suc k\<rparr>)"
proof (induction os arbitrary: s k)
  case Nil
  then show ?case by simp
next
  case (Cons x xs)
  show ?case
  proof (cases k)
    case 0
    then have "on_order w (calls s) = Status 401" "on_text w (calls s)" using Cons.prems by simp_all
    from post_order_401[of w s, OF this] show ?thesis using 0 by simp
  next
    case (Suc i)
    have "\<exists>st. on_order w (calls s + 0) = Status st \<and> ok st" using Cons.prems(2) Suc by blast
    then obtain st where st: "on_order w (calls s) = Status st" "ok st" by auto
    let ?s1 = "s\<lparr>trace := trace s @ [OrderSent x], calls := Suc (calls s)\<rparr>"
    have p: "post_order w x s = (Done, ?s1)" using st by (rule post_order_ok[of w s])
    have 1: "i < length xs" using Cons.prems(1) Suc by simp
    have 2: "\<forall>j<i. \<exists>st. on_order w (calls ?s1 + j) = Status st \<and> ok st"
    proof (intro allI impI)
      fix j assume "j < i"
      then have "Suc j < k" using Suc by simp
      then have "\<exists>st. on_order w (calls s + Suc j) = Status st \<and> ok st" using Cons.prems(2) by blast
      then show "\<exists>st. on_order w (calls ?s1 + j) = Status st \<and> ok st" by simp
    qed
    have 3: "on_order w (calls ?s1 + i) = Status 401" using Cons.prems(3) Suc by simp
    have 4: "on_text w (calls ?s1 + i)" using Cons.prems(4) Suc by simp
    from Cons.IH[OF 1 2 3 4] show ?thesis using p Suc by simp
  qed
qed

lemma post_orders_unread:
  "k < length os \<Longrightarrow> \<forall>j<k. \<exists>st. on_order w (calls s + j) = Status st \<and> ok st \<Longrightarrow>
   on_order w (calls s + k) = Status st' \<Longrightarrow> \<not> ok st' \<Longrightarrow> \<not> on_text w (calls s + k) \<Longrightarrow>
   post_orders w os s =
   (Thrown TextFailed, s\<lparr>trace := trace s @ map OrderSent (take (Suc k) os),
                         calls := calls s + Suc k\<rparr>)"
proof (induction os arbitrary: s k)
  case Nil
  then show ?case by simp
next
  case (Cons x xs)
  show ?case
  proof (cases k)
    case 0
    then have "on_order w (calls s) = Status st'" "\<not> ok st'" "\<not> on_text w (calls s)"
      using Cons.prems by simp_all
    from post_order_unread[of w s, OF this] show ?thesis using 0 by simp
  next
    case (Suc i)
    have "\<exists>st. on_order w (calls s + 0) = Status st \<and> ok st" using Cons.prems(2) Suc by blast
    then obtain st where st: "on_order w (calls s) = Status st" "ok st" by auto
    let ?s1 = "s\<lparr>trace := trace s @ [OrderSent x], calls := Suc (calls s)\<rparr>"
    have p: "post_order w x s = (Done, ?s1)" using st by (rule post_order_ok[of w s])
    have 1: "i < length xs" using Cons.prems(1) Suc by simp
    have 2: "\<forall>j<i. \<exists>st. on_order w (calls ?s1 + j) = Status st \<and> ok st"
    proof (intro allI impI)
      fix j assume "j < i"
      then have "Suc j < k" using Suc by simp
      then have "\<exists>st. on_order w (calls s + Suc j) = Status st \<and> ok st" using Cons.prems(2) by blast
      then show "\<exists>st. on_order w (calls ?s1 + j) = Status st \<and> ok st" by simp
    qed
    have 3: "on_order w (calls ?s1 + i) = Status st'" using Cons.prems(3) Suc by simp
    have 4: "\<not> on_text w (calls ?s1 + i)" using Cons.prems(5) Suc by simp
    from Cons.IH[OF 1 2 3 Cons.prems(4) 4] show ?thesis using p Suc by simp
  qed
qed

text \<open>The answer to the cancellation plays no part in what becomes of the orders.\<close>

lemma post_order_cancel:
  "post_order (w\<lparr>on_cancel := c\<rparr>) ord s = post_order w ord s"
  by (simp add: post_order_def Let_def split: reply.splits)

lemma post_orders_cancel:
  "post_orders (w\<lparr>on_cancel := c\<rparr>) os s = post_orders w os s"
  by (induction os arbitrary: s)
     (simp_all add: post_order_cancel split: prod.splits outcome.splits)

text \<open>The orders sent are the answers' doing only: the trace so far plays no part.\<close>

lemma post_order_events:
  "\<exists>r evs. (\<forall>tr. post_order w ord \<lparr>trace = tr, calls = k\<rparr> = (r, \<lparr>trace = tr @ evs, calls = Suc k\<rparr>)) \<and>
     (\<forall>e\<in>set evs. e \<noteq> CancelLogged None)"
proof (cases "on_order w k")
  case Rejected
  then have "\<forall>tr. post_order w ord \<lparr>trace = tr, calls = k\<rparr> =
      (Thrown FetchFailed, \<lparr>trace = tr @ [OrderSent ord], calls = Suc k\<rparr>)"
    by (simp add: post_order_def)
  then show ?thesis by (intro exI[of _ "Thrown FetchFailed"] exI[of _ "[OrderSent ord]"]) simp
next
  case (Status st)
  show ?thesis
  proof (cases "ok st")
    case True
    then have "\<forall>tr. post_order w ord \<lparr>trace = tr, calls = k\<rparr> =
      (Done, \<lparr>trace = tr @ [OrderSent ord], calls = Suc k\<rparr>)"
      using Status by (simp add: post_order_def)
    then show ?thesis by (intro exI[of _ Done] exI[of _ "[OrderSent ord]"]) simp
  next
    case False
    show ?thesis
    proof (cases "on_text w k")
      case unread: False
      then have "\<forall>tr. post_order w ord \<lparr>trace = tr, calls = k\<rparr> =
        (Thrown TextFailed, \<lparr>trace = tr @ [OrderSent ord], calls = Suc k\<rparr>)"
        using Status False by (simp add: post_order_def)
      then show ?thesis
        by (intro exI[of _ "Thrown TextFailed"] exI[of _ "[OrderSent ord]"]) simp
    next
      case read: True
      show ?thesis
      proof (cases "st = 401")
        case True
        then have "\<forall>tr. post_order w ord \<lparr>trace = tr, calls = k\<rparr> =
          (Exited 0, \<lparr>trace = tr @ [OrderSent ord, Alerted KeyExpired], calls = Suc k\<rparr>)"
          using Status False read by (simp add: post_order_def)
        then show ?thesis
          by (intro exI[of _ "Exited 0"] exI[of _ "[OrderSent ord, Alerted KeyExpired]"]) simp
      next
        case ne: False
        then have "\<forall>tr. post_order w ord \<lparr>trace = tr, calls = k\<rparr> =
          (Thrown (OrderFailed (o_side ord) (o_type ord) st), \<lparr>trace = tr @ [OrderSent ord], calls = Suc k\<rparr>)"
          using Status False read by (simp add: post_order_def)
        then show ?thesis
          by (intro exI[of _ "Thrown (OrderFailed (o_side ord) (o_type ord) st)"] exI[of _ "[OrderSent ord]"]) simp
      qed
    qed
  qed
qed

lemma post_orders_events:
  "\<exists>r evs k'. (\<forall>tr. post_orders w os \<lparr>trace = tr, calls = k\<rparr> = (r, \<lparr>trace = tr @ evs, calls = k'\<rparr>)) \<and>
     (\<forall>e\<in>set evs. e \<noteq> CancelLogged None)"
proof (induction os arbitrary: k)
  case Nil
  have "\<forall>tr. post_orders w [] \<lparr>trace = tr, calls = k\<rparr> = (Done, \<lparr>trace = tr @ [], calls = k\<rparr>)"
    by simp
  then show ?case by (intro exI[of _ Done] exI[of _ "[]"] exI[of _ k]) simp
next
  case (Cons x xs)
  obtain r evs where p: "\<And>tr. post_order w x \<lparr>trace = tr, calls = k\<rparr> = (r, \<lparr>trace = tr @ evs, calls = Suc k\<rparr>)"
    and pe: "\<forall>e\<in>set evs. e \<noteq> CancelLogged None"
    using post_order_events[of w x k] by blast
  show ?case
  proof (cases "r = Done")
    case False
    then have "\<forall>tr. post_orders w (x # xs) \<lparr>trace = tr, calls = k\<rparr> = (r, \<lparr>trace = tr @ evs, calls = Suc k\<rparr>)"
      using p by (cases r) simp_all
    then show ?thesis using pe by blast
  next
    case True
    obtain r' evs' k' where q: "\<And>tr. post_orders w xs \<lparr>trace = tr, calls = Suc k\<rparr> = (r', \<lparr>trace = tr @ evs', calls = k'\<rparr>)"
      and qe: "\<forall>e\<in>set evs'. e \<noteq> CancelLogged None"
      using Cons[of "Suc k"] by blast
    have "\<forall>tr. post_orders w (x # xs) \<lparr>trace = tr, calls = k\<rparr> = (r', \<lparr>trace = tr @ (evs @ evs'), calls = k'\<rparr>)"
      using p q True by simp
    moreover have "\<forall>e\<in>set (evs @ evs'). e \<noteq> CancelLogged None" using pe qe by auto
    ultimately show ?thesis by blast
  qed
qed

lemma mark_price_run:
  "mark_price pair rep s = (x, s') \<Longrightarrow>
   calls s' = calls s \<and> (\<exists>v sym. trace s' = trace s @ [PriceQuery v sym])"
  by (auto simp: mark_price_def Let_def split: if_splits price_reply.splits option.splits item.splits bool.splits)

lemma cycle_steps_orders:
  assumes "mark_price pair (on_price w) \<lparr>trace = [], calls = 0\<rparr> = (Inr markPrice, s0)"
    and "\<not> falsy markPrice" and "on_cancel w = Status st"
  shows "cycle_steps cfg w pair =
         post_orders w (cycle_orders cfg pair markPrice)
           \<lparr>trace = trace s0 @ [CancelOrders (backend (getSymbols (symbol pair))),
                                  CancelLogged (if ok st then None else Some st)],
            calls = 0\<rparr>"
proof -
  have c: "calls s0 = 0" using mark_price_run[OF assms(1)] by simp
  have s0: "s0 = \<lparr>trace = trace s0, calls = 0\<rparr>" using c by simp
  have "cancel_orders pair (on_cancel w) s0 =
      (Done, \<lparr>trace = trace s0 @ [CancelOrders (backend (getSymbols (symbol pair))),
                                  CancelLogged (if ok st then None else Some st)], calls = 0\<rparr>)"
    using assms(3) c by (simp add: cancel_orders_def Let_def)
  then show ?thesis
    using assms(1,2)
    by (simp add: cycle_steps_def ladder_and_match cycle_orders_def and_then_def[of "cancel_orders pair (on_cancel w)"])
qed

lemma cycle_steps_Done:
  assumes "fst (cycle_steps cfg w pair) = Done"
  shows "\<exists>markPrice s0 st. mark_price pair (on_price w) \<lparr>trace = [], calls = 0\<rparr> = (Inr markPrice, s0) \<and>
           \<not> falsy markPrice \<and> on_cancel w = Status st"
proof -
  obtain x s0 where m: "mark_price pair (on_price w) \<lparr>trace = [], calls = 0\<rparr> = (x, s0)"
    by (cases "mark_price pair (on_price w) \<lparr>trace = [], calls = 0\<rparr>")
  show ?thesis
  proof (cases x)
    case (Inl err)
    then show ?thesis using assms m by (simp add: cycle_steps_def)
  next
    case (Inr markPrice)
    have nf: "\<not> falsy markPrice" using assms m Inr by (auto simp: cycle_steps_def split: if_splits)
    have "\<exists>st. on_cancel w = Status st"
    proof (cases "on_cancel w")
      case Rejected
      then have "fst (cycle_steps cfg w pair) = Thrown FetchFailed"
        using m Inr nf by (simp add: cycle_steps_def and_then_def cancel_orders_def Let_def)
      then show ?thesis using assms by simp
    next
      case (Status st)
      then show ?thesis by blast
    qed
    then show ?thesis using m Inr nf by blast
  qed
qed

subsection \<open>The order of the requests\<close>

lemma post_orders_outcome:
  "fst (post_orders w os \<lparr>trace = tr, calls = k\<rparr>) = fst (post_orders w os \<lparr>trace = tr', calls = k\<rparr>)"
proof -
  obtain r evs k' where "\<And>t. post_orders w os \<lparr>trace = t, calls = k\<rparr> = (r, \<lparr>trace = t @ evs, calls = k'\<rparr>)"
    using post_orders_events[of w os k] by blast
  then show ?thesis by simp
qed

text \<open>
  Claim C6, with the rounding of the price. A cycle that completes has sent, in this
  order: the price query; one cancellation request, whose answer was logged and, whatever
  its status, did not end the cycle; a BUY LIMIT GTC order for each level \<open>1..LEVELS\<close>; a
  SELL LIMIT GTC order for each level \<open>1..LEVELS\<close>; one BUY and one SELL LIMIT GTC order,
  both at the mark price brought to four decimals by \<^verbatim>\<open>toFixed(4)\<close>, with no spread
  applied, for the quantity of the pair as configured. With any other status of the
  cancellation the cycle completes as well.
\<close>
theorem cycle_request_order:
  assumes "fst (cycle_steps cfg w pair) = Done"
  shows "\<exists>markPrice venue sym st.
           fst (mark_price pair (on_price w) \<lparr>trace = [], calls = 0\<rparr>) = Inr markPrice \<and>
           on_cancel w = Status st \<and>
           trace (snd (cycle_steps cfg w pair)) =
             [PriceQuery venue sym,
              CancelOrders (backend (getSymbols (symbol pair))),
              CancelLogged (if ok st then None else Some st)] @
             map (\<lambda>i. OrderSent
                    \<lparr>o_productId = productId pair,
                     o_quantity = level_qty (quantity pair) i,
                     o_side = BUY,
                     o_symbol = backend (getSymbols (symbol pair)),
                     o_type = ''LIMIT'',
                     o_timeInForce = Some ''GTC'',
                     o_price = Some (level_price BUY markPrice (spread pair) i)\<rparr>)
               (level_list (LEVELS cfg)) @
             map (\<lambda>i. OrderSent
                    \<lparr>o_productId = productId pair,
                     o_quantity = level_qty (quantity pair) i,
                     o_side = SELL,
                     o_symbol = backend (getSymbols (symbol pair)),
                     o_type = ''LIMIT'',
                     o_timeInForce = Some ''GTC'',
                     o_price = Some (level_price SELL markPrice (spread pair) i)\<rparr>)
               (level_list (LEVELS cfg)) @
             [OrderSent
                \<lparr>o_productId = productId pair,
                 o_quantity = NumToString (quantity pair),
                 o_side = BUY,
                 o_symbol = backend (getSymbols (symbol pair)),
                 o_type = ''LIMIT'',
                 o_timeInForce = Some ''GTC'',
                 o_price = Some (toFixed4 markPrice)\<rparr>,
              OrderSent
                \<lparr>o_productId = productId pair,
                 o_quantity = NumToString (quantity pair),
                 o_side = SELL,
                 o_symbol = backend (getSymbols (symbol pair)),
                 o_type = ''LIMIT'',
                 o_timeInForce = Some ''GTC'',
                 o_price = Some (toFixed4 markPrice)\<rparr>] \<and>
           (\<forall>st'. fst (cycle_steps cfg (w\<lparr>on_cancel := Status st'\<rparr>) pair) = Done)"
proof -
  obtain markPrice s0 st where m: "mark_price pair (on_price w) \<lparr>trace = [], calls = 0\<rparr> = (Inr markPrice, s0)"
    and nf: "\<not> falsy markPrice" and c: "on_cancel w = Status st"
    using cycle_steps_Done[OF assms] by blast
  obtain venue sym where t0: "trace s0 = [PriceQuery venue sym]"
    using mark_price_run[OF m] by auto
  let ?s1 = "\<lparr>trace = trace s0 @ [CancelOrders (backend (getSymbols (symbol pair))),
                                  CancelLogged (if ok st then None else Some st)], calls = 0\<rparr>"
  have steps: "cycle_steps cfg w pair = post_orders w (cycle_orders cfg pair markPrice) ?s1"
    using cycle_steps_orders[OF m nf c] .
  obtain s' where d: "post_orders w (cycle_orders cfg pair markPrice) ?s1 = (Done, s')"
    using assms steps by (cases "post_orders w (cycle_orders cfg pair markPrice) ?s1") simp
  have "trace s' = trace ?s1 @ map OrderSent (cycle_orders cfg pair markPrice)"
    using post_orders_Done[OF d] by simp
  then have tr: "trace (snd (cycle_steps cfg w pair)) =
      [PriceQuery venue sym, CancelOrders (backend (getSymbols (symbol pair))),
       CancelLogged (if ok st then None else Some st)] @ map OrderSent (cycle_orders cfg pair markPrice)"
    using steps d t0 by simp
  have any: "\<forall>st'. fst (cycle_steps cfg (w\<lparr>on_cancel := Status st'\<rparr>) pair) = Done"
  proof
    fix st'
    have m': "mark_price pair (on_price (w\<lparr>on_cancel := Status st'\<rparr>)) \<lparr>trace = [], calls = 0\<rparr> = (Inr markPrice, s0)"
      using m by simp
    have "cycle_steps cfg (w\<lparr>on_cancel := Status st'\<rparr>) pair =
        post_orders w (cycle_orders cfg pair markPrice)
          \<lparr>trace = trace s0 @ [CancelOrders (backend (getSymbols (symbol pair))),
                                  CancelLogged (if ok st' then None else Some st')], calls = 0\<rparr>"
      using cycle_steps_orders[OF m' nf, of st' cfg] by (simp add: post_orders_cancel)
    then show "fst (cycle_steps cfg (w\<lparr>on_cancel := Status st'\<rparr>) pair) = Done"
      using d post_orders_outcome[of w "cycle_orders cfg pair markPrice" "trace ?s1" 0] by simp
  qed
  have "fst (mark_price pair (on_price w) \<lparr>trace = [], calls = 0\<rparr>) = Inr markPrice" using m by simp
  then show ?thesis
    using c tr any
    unfolding cycle_orders_def ladder_order_def match_order_def
    by (intro exI[of _ markPrice] exI[of _ venue] exI[of _ sym] exI[of _ st]) (simp add: comp_def)
qed

lemma mark_price_binance:
  "symbol pair \<noteq> ''0G-USDC'' \<Longrightarrow> ok st \<Longrightarrow>
   mark_price pair (PriceResponse st (Item truthy x)) s =
   (Inr x, s\<lparr>trace := trace s @ [PriceQuery Binance (binance (getSymbols (symbol pair)))]\<rparr>)"
  by (simp add: mark_price_def)

lemma mark_price_exchange:
  "symbol pair = ''0G-USDC'' \<Longrightarrow>
   mark_price pair (PriceResponse st it) s =
   (Inr (if ok st then (case it of Item True x \<Rightarrow> if falsy x then round_frac 4 100 else x
                                | _ \<Rightarrow> round_frac 4 100)
         else round_frac 4 100),
    s\<lparr>trace := trace s @ [PriceQuery Exchange (backend (getSymbols (symbol pair)))]\<rparr>)"
  by (simp add: mark_price_def split: item.splits bool.splits)

lemma cycle_steps_all_ok:
  assumes "mark_price pair (on_price w) \<lparr>trace = [], calls = 0\<rparr> = (Inr markPrice, s0)"
    and "\<not> falsy markPrice" and "on_cancel w = Status st"
    and "\<forall>j<length (cycle_orders cfg pair markPrice). \<exists>st. on_order w j = Status st \<and> ok st"
  shows "cycle_steps cfg w pair =
         (Done, \<lparr>trace = trace s0 @ [CancelOrders (backend (getSymbols (symbol pair))),
                                      CancelLogged (if ok st then None else Some st)] @
                         map OrderSent (cycle_orders cfg pair markPrice),
                  calls = length (cycle_orders cfg pair markPrice)\<rparr>)"
proof -
  let ?s1 = "\<lparr>trace = trace s0 @ [CancelOrders (backend (getSymbols (symbol pair))),
                                  CancelLogged (if ok st then None else Some st)], calls = 0\<rparr>"
  have "\<forall>j<length (cycle_orders cfg pair markPrice). \<exists>st. on_order w (calls ?s1 + j) = Status st \<and> ok st"
    using assms(4) by simp
  from post_orders_all_ok[OF this] show ?thesis
    using cycle_steps_orders[OF assms(1,2,3), of cfg] by simp
qed

lemma cycle_steps_401:
  assumes "mark_price pair (on_price w) \<lparr>trace = [], calls = 0\<rparr> = (Inr markPrice, s0)"
    and "\<not> falsy markPrice" and "on_cancel w = Status st"
    and "k < length (cycle_orders cfg pair markPrice)"
    and "\<forall>j<k. \<exists>st. on_order w j = Status st \<and> ok st"
    and "on_order w k = Status 401" and "on_text w k"
  shows "cycle_steps cfg w pair =
         (Exited 0, \<lparr>trace = trace s0 @ [CancelOrders (backend (getSymbols (symbol pair))),
                                      CancelLogged (if ok st then None else Some st)] @
                         map OrderSent (take (Suc k) (cycle_orders cfg pair markPrice)) @
                         [Alerted KeyExpired],
                  calls = Suc k\<rparr>)"
proof -
  let ?s1 = "\<lparr>trace = trace s0 @ [CancelOrders (backend (getSymbols (symbol pair))),
                                  CancelLogged (if ok st then None else Some st)], calls = 0\<rparr>"
  have 2: "\<forall>j<k. \<exists>st. on_order w (calls ?s1 + j) = Status st \<and> ok st"
    using assms(5) by simp
  have 3: "on_order w (calls ?s1 + k) = Status 401" using assms(6) by simp
  have 4: "on_text w (calls ?s1 + k)" using assms(7) by simp
  from post_orders_401[OF assms(4) 2 3 4] show ?thesis
    using cycle_steps_orders[OF assms(1,2,3), of cfg] by simp
qed

lemma cycle_steps_unread:
  assumes "mark_price pair (on_price w) \<lparr>trace = [], calls = 0\<rparr> = (Inr markPrice, s0)"
    and "\<not> falsy markPrice" and "on_cancel w = Status st"
    and "k < length (cycle_orders cfg pair markPrice)"
    and "\<forall>j<k. \<exists>st. on_order w j = Status st \<and> ok st"
    and "on_order w k = Status st'" and "\<not> ok st'" and "\<not> on_text w k"
  shows "cycle_steps cfg w pair =
         (Thrown TextFailed,
          \<lparr>trace = trace s0 @ [CancelOrders (backend (getSymbols (symbol pair))),
                                 CancelLogged (if ok st then None else Some st)] @
                    map OrderSent (take (Suc k) (cycle_orders cfg pair markPrice)),
            calls = Suc k\<rparr>)"
proof -
  let ?s1 = "\<lparr>trace = trace s0 @ [CancelOrders (backend (getSymbols (symbol pair))),
                                  CancelLogged (if ok st then None else Some st)], calls = 0\<rparr>"
  have 2: "\<forall>j<k. \<exists>st. on_order w (calls ?s1 + j) = Status st \<and> ok st"
    using assms(5) by simp
  have 3: "on_order w (calls ?s1 + k) = Status st'" using assms(6) by simp
  have 4: "\<not> on_text w (calls ?s1 + k)" using assms(8) by simp
  from post_orders_unread[OF assms(4) 2 3 assms(7) 4] show ?thesis
    using cycle_steps_orders[OF assms(1,2,3), of cfg] by simp
qed

lemma length_cycle_orders:
  "length (cycle_orders cfg pair markPrice) = 2 * length (level_list (LEVELS cfg)) + 2"
  by (simp add: cycle_orders_def)

lemma dbl_50000: "dbl_of_int 50000 = Fin 6871947673600000 (- 37)"
  by code_simp

lemma fallback_price: "round_frac 4 100 = Fin 5764607523034235 (- 57)"
  by code_simp

text \<open>
  The first pair of the table at a mark price of 50000, the cancellation answered 503 and
  every order accepted: the cycle completes after fifteen events, of which twelve are
  orders.
\<close>
theorem cycle_request_order_witness:
  "fst (cycle_steps defaults
          \<lparr>on_price = PriceResponse 200 (Item True (dbl_of_int 50000)),
           on_cancel = Status 503, on_order = always (Status 200), on_text = always True\<rparr> (PAIRS ! 0)) = Done \<and>
   length (trace (snd (cycle_steps defaults
          \<lparr>on_price = PriceResponse 200 (Item True (dbl_of_int 50000)),
           on_cancel = Status 503, on_order = always (Status 200), on_text = always True\<rparr> (PAIRS ! 0)))) = 15"
proof -
  let ?w = "\<lparr>on_price = PriceResponse 200 (Item True (dbl_of_int 50000)),
           on_cancel = Status 503, on_order = always (Status 200), on_text = always True\<rparr>"
  have sym: "symbol (PAIRS ! 0) \<noteq> ''0G-USDC''" by (simp add: PAIRS_def)
  have m: "mark_price (PAIRS ! 0) (on_price ?w) \<lparr>trace = [], calls = 0\<rparr> =
     (Inr (dbl_of_int 50000),
      \<lparr>trace = [], calls = 0\<rparr>\<lparr>trace := trace \<lparr>trace = [], calls = 0\<rparr> @
         [PriceQuery Binance (binance (getSymbols (symbol (PAIRS ! 0))))]\<rparr>)"
    using mark_price_binance[OF sym, of 200] by (simp add: ok_def)
  have nf: "\<not> falsy (dbl_of_int 50000)" by (simp add: dbl_50000)
  have c: "on_cancel ?w = Status 503" by simp
  have a: "\<forall>j<length (cycle_orders defaults (PAIRS ! 0) (dbl_of_int 50000)).
      \<exists>st. on_order ?w j = Status st \<and> ok st"
    by (simp add: always_def ok_def)
  have h: "fst (cycle_steps defaults ?w (PAIRS ! 0)) = Done"
    using cycle_steps_all_ok[OF m nf c a] by simp
  obtain markPrice venue sym st where
    "trace (snd (cycle_steps defaults ?w (PAIRS ! 0))) =
       [PriceQuery venue sym, CancelOrders (backend (getSymbols (symbol (PAIRS ! 0)))),
        CancelLogged (if ok st then None else Some st)] @
       map (\<lambda>i. OrderSent
              \<lparr>o_productId = productId (PAIRS ! 0),
               o_quantity = level_qty (quantity (PAIRS ! 0)) i,
               o_side = BUY,
               o_symbol = backend (getSymbols (symbol (PAIRS ! 0))),
               o_type = ''LIMIT'',
               o_timeInForce = Some ''GTC'',
               o_price = Some (level_price BUY markPrice (spread (PAIRS ! 0)) i)\<rparr>)
         (level_list (LEVELS defaults)) @
       map (\<lambda>i. OrderSent
              \<lparr>o_productId = productId (PAIRS ! 0),
               o_quantity = level_qty (quantity (PAIRS ! 0)) i,
               o_side = SELL,
               o_symbol = backend (getSymbols (symbol (PAIRS ! 0))),
               o_type = ''LIMIT'',
               o_timeInForce = Some ''GTC'',
               o_price = Some (level_price SELL markPrice (spread (PAIRS ! 0)) i)\<rparr>)
         (level_list (LEVELS defaults)) @
       [OrderSent
          \<lparr>o_productId = productId (PAIRS ! 0),
           o_quantity = NumToString (quantity (PAIRS ! 0)),
           o_side = BUY,
           o_symbol = backend (getSymbols (symbol (PAIRS ! 0))),
           o_type = ''LIMIT'',
           o_timeInForce = Some ''GTC'',
           o_price = Some (toFixed4 markPrice)\<rparr>,
        OrderSent
          \<lparr>o_productId = productId (PAIRS ! 0),
           o_quantity = NumToString (quantity (PAIRS ! 0)),
           o_side = SELL,
           o_symbol = backend (getSymbols (symbol (PAIRS ! 0))),
           o_type = ''LIMIT'',
           o_timeInForce = Some ''GTC'',
           o_price = Some (toFixed4 markPrice)\<rparr>]"
    using cycle_request_order[OF h] by blast
  then have "length (trace (snd (cycle_steps defaults ?w (PAIRS ! 0)))) = 15"
    by (simp add: level_list_def defaults_def)
  then show ?thesis using h by simp
qed

subsection \<open>Credential expiry and cancellation failures\<close>

lemma sent_orders_append: "sent_orders (xs @ ys) = sent_orders xs @ sent_orders ys"
  by (induction xs rule: sent_orders.induct) simp_all

lemma sent_orders_map: "sent_orders (map OrderSent os) = os"
  by (induction os) simp_all

text \<open>
  An order request answered with status 401, the body of the response read: whichever
  request of the cycle it is (the \<open>k\<close>-th, the ones before it accepted), the process ends
  there with exit status 0. The request was sent once, the alert follows it, no further
  request is made, and no error counter has changed.
\<close>
lemma key_expired_exit:
  assumes "mark_price pair (on_price w) \<lparr>trace = [], calls = 0\<rparr> = (Inr markPrice, s0)"
    and "\<not> falsy markPrice"
    and "on_cancel w = Status st"
    and "k < length (cycle_orders cfg pair markPrice)"
    and "\<forall>j<k. \<exists>st. on_order w j = Status st \<and> ok st"
    and "on_order w k = Status 401"
    and "on_text w k"
  shows "cycleForPair cfg w pair pairStates =
           (trace s0 @
            [CancelOrders (backend (getSymbols (symbol pair))),
             CancelLogged (if ok st then None else Some st)] @
            map OrderSent (take (Suc k) (cycle_orders cfg pair markPrice)) @
            [Alerted KeyExpired],
            pairStates, Some 0) \<and>
         sent_orders (fst (cycleForPair cfg w pair pairStates)) =
           take (Suc k) (cycle_orders cfg pair markPrice)"
proof -
  have steps: "cycle_steps cfg w pair =
         (Exited 0, \<lparr>trace = trace s0 @ [CancelOrders (backend (getSymbols (symbol pair))),
                                      CancelLogged (if ok st then None else Some st)] @
                         map OrderSent (take (Suc k) (cycle_orders cfg pair markPrice)) @
                         [Alerted KeyExpired],
                  calls = Suc k\<rparr>)"
    using cycle_steps_401[OF assms] .
  have 1: "cycleForPair cfg w pair pairStates =
           (trace s0 @
            [CancelOrders (backend (getSymbols (symbol pair))),
             CancelLogged (if ok st then None else Some st)] @
            map OrderSent (take (Suc k) (cycle_orders cfg pair markPrice)) @
            [Alerted KeyExpired],
            pairStates, Some 0)"
    by (simp add: cycleForPair_def steps split: option.splits)
  obtain v sym where "trace s0 = [PriceQuery v sym]"
    using mark_price_run[OF assms(1)] by auto
  then have "sent_orders (fst (cycleForPair cfg w pair pairStates)) =
           take (Suc k) (cycle_orders cfg pair markPrice)"
    by (simp add: 1 sent_orders_append sent_orders_map)
  then show ?thesis using 1 by simp
qed

text \<open>
  The same answer, the body of the response not read (\<^verbatim>\<open>res.text()\<close> is rejected): the
  cycle fails like any other. The alert of the expired key is not sent, the counter of the
  pair goes up, and the process ends only when the counter has reached the maximum, and
  then with exit status 1.
\<close>
lemma key_expired_unread:
  assumes "mark_price pair (on_price w) \<lparr>trace = [], calls = 0\<rparr> = (Inr markPrice, s0)"
    and "\<not> falsy markPrice"
    and "on_cancel w = Status st"
    and "k < length (cycle_orders cfg pair markPrice)"
    and "\<forall>j<k. \<exists>st. on_order w j = Status st \<and> ok st"
    and "on_order w k = Status 401"
    and "\<not> on_text w k"
    and "pairStates (symbol pair) = Some c"
  shows "cycleForPair cfg w pair pairStates =
           ((trace s0 @
             [CancelOrders (backend (getSymbols (symbol pair))),
              CancelLogged (if ok st then None else Some st)] @
             map OrderSent (take (Suc k) (cycle_orders cfg pair markPrice))) @
            (if js_ge (Suc c) (MAX_ERRORS cfg)
             then [Alerted (CycleError (Suc c) TextFailed), Alerted (Stopping TextFailed)]
             else [Alerted (CycleError (Suc c) TextFailed)]),
            pairStates(symbol pair \<mapsto> Suc c),
            if js_ge (Suc c) (MAX_ERRORS cfg) then Some 1 else None)"
proof -
  have "\<not> ok 401" by (simp add: ok_def)
  from cycle_steps_unread[OF assms(1-6) this assms(7)]
  show ?thesis using assms(8) by (simp add: cycleForPair_def Let_def)
qed

text \<open>
  Claim C4. An order request answered with status 401 ends the process with exit status 0
  after the alert, and is not sent again, when the body of the response can be read
  (\<open>key_expired_exit\<close>). \<^verbatim>\<open>placeOrder\<close> reads the body before it looks at the status,
  and the claim fails where that reading is rejected. The eighth order request of a cycle
  of the first pair (the third ask level) is answered 401 and the body cannot be read: with
  the counter at 2 the cycle ends as a failed cycle, the counter is 3 and the process goes
  on to the next cycle, which sends its orders again; with the counter at 4 the process
  ends with exit status 1. In neither case is the alert of the expired key sent.
\<close>
theorem key_expired_body_unread:
  "cycleForPair defaults
      \<lparr>on_price = PriceResponse 200 (Item True (dbl_of_int 50000)),
       on_cancel = Status 200, on_order = only_at 7 (Status 401), on_text = always False\<rparr>
      (PAIRS ! 0) [''BTC-USDC'' \<mapsto> 2] =
     ([PriceQuery Binance ''BTCUSDT'', CancelOrders ''BTCUSDCPERP'', CancelLogged None] @
      map OrderSent (take 8 (cycle_orders defaults (PAIRS ! 0) (dbl_of_int 50000))) @
      [Alerted (CycleError 3 TextFailed)],
      [''BTC-USDC'' \<mapsto> 3], None) \<and>
   cycleForPair defaults
      \<lparr>on_price = PriceResponse 200 (Item True (dbl_of_int 50000)),
       on_cancel = Status 200, on_order = only_at 7 (Status 401), on_text = always False\<rparr>
      (PAIRS ! 0) [''BTC-USDC'' \<mapsto> 4] =
     ([PriceQuery Binance ''BTCUSDT'', CancelOrders ''BTCUSDCPERP'', CancelLogged None] @
      map OrderSent (take 8 (cycle_orders defaults (PAIRS ! 0) (dbl_of_int 50000))) @
      [Alerted (CycleError 5 TextFailed), Alerted (Stopping TextFailed)],
      [''BTC-USDC'' \<mapsto> 5], Some 1) \<and>
   cycleForPair defaults
      \<lparr>on_price = PriceResponse 200 (Item True (dbl_of_int 50000)),
       on_cancel = Status 200, on_order = only_at 7 (Status 401), on_text = always True\<rparr>
      (PAIRS ! 0) [''BTC-USDC'' \<mapsto> 4] =
     ([PriceQuery Binance ''BTCUSDT'', CancelOrders ''BTCUSDCPERP'', CancelLogged None] @
      map OrderSent (take 8 (cycle_orders defaults (PAIRS ! 0) (dbl_of_int 50000))) @
      [Alerted KeyExpired],
      [''BTC-USDC'' \<mapsto> 4], Some 0)"
proof -
  let ?w = "\<lambda>rd. \<lparr>on_price = PriceResponse 200 (Item True (dbl_of_int 50000)),
       on_cancel = Status 200, on_order = only_at 7 (Status 401), on_text = always rd\<rparr>"
  let ?s0 = "\<lparr>trace = [PriceQuery Binance ''BTCUSDT''], calls = 0\<rparr>"
  have sym: "symbol (PAIRS ! 0) \<noteq> ''0G-USDC''" by (simp add: PAIRS_def)
  have s: "symbol (PAIRS ! 0) = ''BTC-USDC''" by (simp add: PAIRS_def)
  have b: "binance (getSymbols (symbol (PAIRS ! 0))) = ''BTCUSDT''"
    "backend (getSymbols (symbol (PAIRS ! 0))) = ''BTCUSDCPERP''"
    "backend (getSymbols ''BTC-USDC'') = ''BTCUSDCPERP''"
    by (simp_all add: PAIRS_def getSymbols_def replace_suffix_def)
  have m: "mark_price (PAIRS ! 0) (on_price (?w rd)) \<lparr>trace = [], calls = 0\<rparr> =
     (Inr (dbl_of_int 50000), ?s0)" for rd
    using mark_price_binance[OF sym, of 200] by (simp add: ok_def b)
  have nf: "\<not> falsy (dbl_of_int 50000)" by (simp add: dbl_50000)
  have c: "on_cancel (?w rd) = Status 200" for rd by simp
  have k: "7 < length (cycle_orders defaults (PAIRS ! 0) (dbl_of_int 50000))"
    by (simp add: length_cycle_orders level_list_def defaults_def)
  have a: "\<forall>j<7. \<exists>st. on_order (?w rd) j = Status st \<and> ok st" for rd
    by (simp add: only_at_def ok_def)
  have e: "on_order (?w rd) 7 = Status 401" for rd by (simp add: only_at_def)
  have u: "\<not> on_text (?w False) 7" and r: "on_text (?w True) 7" by (simp_all add: always_def)
  have mx: "MAX_ERRORS defaults = Some 5" by (simp add: defaults_def)
  have 1: "cycleForPair defaults (?w False) (PAIRS ! 0) [''BTC-USDC'' \<mapsto> 2] =
     ([PriceQuery Binance ''BTCUSDT'', CancelOrders ''BTCUSDCPERP'', CancelLogged None] @
      map OrderSent (take 8 (cycle_orders defaults (PAIRS ! 0) (dbl_of_int 50000))) @
      [Alerted (CycleError 3 TextFailed)],
      [''BTC-USDC'' \<mapsto> 3], None)"
    using key_expired_unread[OF m[of False] nf c[of False] k a[of False] e[of False] u, of "[''BTC-USDC'' \<mapsto> 2]" 2]
    by (simp add: s b mx js_ge_def ok_def)
  have 2: "cycleForPair defaults (?w False) (PAIRS ! 0) [''BTC-USDC'' \<mapsto> 4] =
     ([PriceQuery Binance ''BTCUSDT'', CancelOrders ''BTCUSDCPERP'', CancelLogged None] @
      map OrderSent (take 8 (cycle_orders defaults (PAIRS ! 0) (dbl_of_int 50000))) @
      [Alerted (CycleError 5 TextFailed), Alerted (Stopping TextFailed)],
      [''BTC-USDC'' \<mapsto> 5], Some 1)"
    using key_expired_unread[OF m[of False] nf c[of False] k a[of False] e[of False] u, of "[''BTC-USDC'' \<mapsto> 4]" 4]
    by (simp add: s b mx js_ge_def ok_def)
  have 3: "cycleForPair defaults (?w True) (PAIRS ! 0) [''BTC-USDC'' \<mapsto> 4] =
     ([PriceQuery Binance ''BTCUSDT'', CancelOrders ''BTCUSDCPERP'', CancelLogged None] @
      map OrderSent (take 8 (cycle_orders defaults (PAIRS ! 0) (dbl_of_int 50000))) @
      [Alerted KeyExpired],
      [''BTC-USDC'' \<mapsto> 4], Some 0)"
    using key_expired_exit[OF m[of True] nf c[of True] k a[of True] e[of True] r, of "[''BTC-USDC'' \<mapsto> 4]"]
    by (simp add: b ok_def)
  show ?thesis using 1 2 3 by blast
qed

lemma post_order_trace:
  "\<exists>evs. trace (snd (post_order w ord s)) = trace s @ OrderSent ord # evs"
  by (auto simp: post_order_def Let_def split: reply.splits)

lemma post_orders_trace: "\<exists>evs. trace (snd (post_orders w os s)) = trace s @ evs"
proof (induction os arbitrary: s)
  case Nil
  then show ?case by simp
next
  case (Cons x xs)
  obtain r s1 where p: "post_order w x s = (r, s1)" by (cases "post_order w x s")
  obtain evs where e: "trace s1 = trace s @ OrderSent x # evs"
    using post_order_trace[of w x s] p by auto
  show ?case
  proof (cases "r = Done")
    case True
    obtain evs' where "trace (snd (post_orders w xs s1)) = trace s1 @ evs'"
      using Cons[of s1] by blast
    then show ?thesis using p True e by simp
  next
    case False
    then have "post_orders w (x # xs) s = (r, s1)" using p by (cases r) simp_all
    then show ?thesis using e by simp
  qed
qed

lemma post_orders_first:
  "\<exists>evs. trace (snd (post_orders w (x # xs) s)) = trace s @ OrderSent x # evs"
proof -
  obtain r s1 where p: "post_order w x s = (r, s1)" by (cases "post_order w x s")
  obtain evs where e: "trace s1 = trace s @ OrderSent x # evs"
    using post_order_trace[of w x s] p by auto
  show ?thesis
  proof (cases "r = Done")
    case True
    obtain evs' where "trace (snd (post_orders w xs s1)) = trace s1 @ evs'"
      using post_orders_trace[of w xs s1] by blast
    then show ?thesis using p True e by simp
  next
    case False
    then have "post_orders w (x # xs) s = (r, s1)" using p by (cases r) simp_all
    then show ?thesis using e by simp
  qed
qed

lemma cycle_orders_first:
  "LEVELS cfg = Some l \<Longrightarrow> 1 \<le> l \<Longrightarrow>
   cycle_orders cfg pair markPrice ! 0 = ladder_order pair markPrice BUY 1"
proof -
  assume l: "LEVELS cfg = Some l" "1 \<le> l"
  then have "[1..l] = 1 # [2..l]" by (simp add: upto_rec1)
  then show ?thesis using l by (simp add: cycle_orders_def level_list_def)
qed

text \<open>
  Claim C10. In a cycle that has its mark price, a cancellation answered with a status
  \<open>st\<close> outside 200..299, 401 included, does not end the process and does not fail the
  cycle: after the cancellation request the line \<^verbatim>\<open>skipped (st)\<close> is logged and the next
  thing the cycle does is to send its first order, the first bid level of the ladder. The
  outcome of the cycle, its requests and their order are those of the cycle whose
  cancellation is answered 200, with \<^verbatim>\<open>skipped (st)\<close> where that one logs \<^verbatim>\<open>done\<close>:
  when every order is accepted the cycle completes. The status 401 is a case of its own for
  an order only: the same cycle, whose cancellation was answered \<open>st\<close> and went on, ends
  the process with exit status 0 when its first order is answered 401.
\<close>
theorem cancel_status_not_fatal:
  assumes "mark_price pair (on_price w) \<lparr>trace = [], calls = 0\<rparr> = (Inr markPrice, s0)"
    and "\<not> falsy markPrice"
    and "on_cancel w = Status st"
    and "\<not> ok st"
  shows "(\<exists>evs. trace (snd (cycle_steps cfg w pair)) =
            trace s0 @
            [CancelOrders (backend (getSymbols (symbol pair))), CancelLogged (Some st),
             OrderSent (cycle_orders cfg pair markPrice ! 0)] @ evs) \<and>
         (\<forall>l. LEVELS cfg = Some l \<and> 1 \<le> l \<longrightarrow>
            cycle_orders cfg pair markPrice ! 0 = ladder_order pair markPrice BUY 1) \<and>
         fst (cycle_steps cfg w pair) = fst (cycle_steps cfg (w\<lparr>on_cancel := Status 200\<rparr>) pair) \<and>
         trace (snd (cycle_steps cfg w pair)) =
           map (\<lambda>e. if e = CancelLogged None then CancelLogged (Some st) else e)
             (trace (snd (cycle_steps cfg (w\<lparr>on_cancel := Status 200\<rparr>) pair))) \<and>
         calls (snd (cycle_steps cfg w pair)) =
           calls (snd (cycle_steps cfg (w\<lparr>on_cancel := Status 200\<rparr>) pair)) \<and>
         ((\<forall>j<length (cycle_orders cfg pair markPrice). \<exists>st'. on_order w j = Status st' \<and> ok st') \<longrightarrow>
            cycle_steps cfg w pair =
              (Done, \<lparr>trace = trace s0 @
                         [CancelOrders (backend (getSymbols (symbol pair))), CancelLogged (Some st)] @
                         map OrderSent (cycle_orders cfg pair markPrice),
                       calls = length (cycle_orders cfg pair markPrice)\<rparr>)) \<and>
         (on_order w 0 = Status 401 \<and> on_text w 0 \<longrightarrow>
            cycleForPair cfg w pair pairStates =
              (trace s0 @
               [CancelOrders (backend (getSymbols (symbol pair))), CancelLogged (Some st),
                OrderSent (cycle_orders cfg pair markPrice ! 0), Alerted KeyExpired],
               pairStates, Some 0))"
proof -
  let ?f = "\<lambda>e. if e = CancelLogged None then CancelLogged (Some st) else e"
  let ?w2 = "w\<lparr>on_cancel := Status 200\<rparr>"
  let ?b = "CancelOrders (backend (getSymbols (symbol pair)))"
  let ?os = "cycle_orders cfg pair markPrice"
  obtain v sym where t0: "trace s0 = [PriceQuery v sym]"
    using mark_price_run[OF assms(1)] by auto
  have len: "0 < length ?os" by (simp add: length_cycle_orders)
  then obtain x xs where os: "?os = x # xs" by (cases ?os) auto
  then have x: "?os ! 0 = x" by simp
  have 1: "cycle_steps cfg w pair =
      post_orders w ?os \<lparr>trace = trace s0 @ [?b, CancelLogged (Some st)], calls = 0\<rparr>"
    using cycle_steps_orders[OF assms(1,2,3), of cfg] assms(4) by simp
  have a: "\<exists>evs. trace (snd (cycle_steps cfg w pair)) =
            trace s0 @ [?b, CancelLogged (Some st), OrderSent (?os ! 0)] @ evs"
    using post_orders_first[of w x xs "\<lparr>trace = trace s0 @ [?b, CancelLogged (Some st)], calls = 0\<rparr>"]
    by (simp add: 1 os)
  have b: "\<forall>l. LEVELS cfg = Some l \<and> 1 \<le> l \<longrightarrow> ?os ! 0 = ladder_order pair markPrice BUY 1"
    using cycle_orders_first by blast
  have m2: "mark_price pair (on_price ?w2) \<lparr>trace = [], calls = 0\<rparr> = (Inr markPrice, s0)"
    using assms(1) by simp
  have 2: "cycle_steps cfg ?w2 pair =
      post_orders w ?os \<lparr>trace = trace s0 @ [?b, CancelLogged None], calls = 0\<rparr>"
    using cycle_steps_orders[OF m2 assms(2), of 200 cfg] by (simp add: ok_def post_orders_cancel)
  obtain r evs k' where p: "\<And>tr. post_orders w ?os \<lparr>trace = tr, calls = 0\<rparr> =
        (r, \<lparr>trace = tr @ evs, calls = k'\<rparr>)"
    and e: "\<forall>e\<in>set evs. e \<noteq> CancelLogged None"
    using post_orders_events[of w ?os 0] by blast
  have "map ?f evs = evs" using e by (induction evs) auto
  then have c: "fst (cycle_steps cfg w pair) = fst (cycle_steps cfg ?w2 pair) \<and>
         trace (snd (cycle_steps cfg w pair)) = map ?f (trace (snd (cycle_steps cfg ?w2 pair))) \<and>
         calls (snd (cycle_steps cfg w pair)) = calls (snd (cycle_steps cfg ?w2 pair))"
    using 1 2 p t0 by simp
  have d: "(\<forall>j<length ?os. \<exists>st'. on_order w j = Status st' \<and> ok st') \<longrightarrow>
      cycle_steps cfg w pair =
        (Done, \<lparr>trace = trace s0 @ [?b, CancelLogged (Some st)] @ map OrderSent ?os,
                 calls = length ?os\<rparr>)"
    using cycle_steps_all_ok[OF assms(1,2,3), of cfg] assms(4) by simp
  have f: "on_order w 0 = Status 401 \<and> on_text w 0 \<longrightarrow>
      cycleForPair cfg w pair pairStates =
        (trace s0 @ [?b, CancelLogged (Some st), OrderSent (?os ! 0), Alerted KeyExpired],
         pairStates, Some 0)"
  proof
    assume h: "on_order w 0 = Status 401 \<and> on_text w 0"
    have "\<forall>j<0. \<exists>st. on_order w j = Status st \<and> ok st" by simp
    from key_expired_exit[OF assms(1,2,3) len this, of pairStates] h
    show "cycleForPair cfg w pair pairStates =
        (trace s0 @ [?b, CancelLogged (Some st), OrderSent (?os ! 0), Alerted KeyExpired],
         pairStates, Some 0)"
      using assms(4) by (simp add: os)
  qed
  show ?thesis using a b c d f by (intro conjI) blast+
qed

text \<open>
  The first pair, the cancellation answered 401: with every order accepted the cycle
  completes, with the first order answered 401 the process ends with exit status 0.
\<close>
theorem cancel_status_not_fatal_witness:
  "mark_price (PAIRS ! 0) (PriceResponse 200 (Item True (dbl_of_int 50000))) \<lparr>trace = [], calls = 0\<rparr> =
     (Inr (dbl_of_int 50000), \<lparr>trace = [PriceQuery Binance ''BTCUSDT''], calls = 0\<rparr>) \<and>
   \<not> falsy (dbl_of_int 50000) \<and>
   \<not> ok 401 \<and>
   LEVELS defaults = Some 5 \<and>
   cycle_steps defaults
      \<lparr>on_price = PriceResponse 200 (Item True (dbl_of_int 50000)),
       on_cancel = Status 401, on_order = always (Status 200), on_text = always True\<rparr> (PAIRS ! 0) =
     (Done,
      \<lparr>trace = [PriceQuery Binance ''BTCUSDT''] @
                [CancelOrders ''BTCUSDCPERP'', CancelLogged (Some 401)] @
                map OrderSent (cycle_orders defaults (PAIRS ! 0) (dbl_of_int 50000)),
        calls = length (cycle_orders defaults (PAIRS ! 0) (dbl_of_int 50000))\<rparr>) \<and>
   cycle_orders defaults (PAIRS ! 0) (dbl_of_int 50000) ! 0 =
     ladder_order (PAIRS ! 0) (dbl_of_int 50000) BUY 1 \<and>
   cycleForPair defaults
      \<lparr>on_price = PriceResponse 200 (Item True (dbl_of_int 50000)),
       on_cancel = Status 401, on_order = always (Status 401), on_text = always True\<rparr> (PAIRS ! 0)
      [''BTC-USDC'' \<mapsto> 2] =
     ([PriceQuery Binance ''BTCUSDT''] @
      [CancelOrders ''BTCUSDCPERP'', CancelLogged (Some 401),
       OrderSent (cycle_orders defaults (PAIRS ! 0) (dbl_of_int 50000) ! 0), Alerted KeyExpired],
      [''BTC-USDC'' \<mapsto> 2], Some 0)"
proof -
  let ?w = "\<lambda>r. \<lparr>on_price = PriceResponse 200 (Item True (dbl_of_int 50000)),
       on_cancel = Status 401, on_order = always (Status r), on_text = always True\<rparr>"
  let ?s0 = "\<lparr>trace = [PriceQuery Binance ''BTCUSDT''], calls = 0\<rparr>"
  have h: "\<not> ok 401" by (simp add: ok_def)
  have sym: "symbol (PAIRS ! 0) \<noteq> ''0G-USDC''" by (simp add: PAIRS_def)
  have b: "binance (getSymbols (symbol (PAIRS ! 0))) = ''BTCUSDT''"
    "backend (getSymbols (symbol (PAIRS ! 0))) = ''BTCUSDCPERP''"
    by (simp_all add: PAIRS_def getSymbols_def replace_suffix_def)
  have m0: "mark_price (PAIRS ! 0) (PriceResponse 200 (Item True (dbl_of_int 50000))) \<lparr>trace = [], calls = 0\<rparr> =
     (Inr (dbl_of_int 50000), ?s0)"
    using mark_price_binance[OF sym, of 200] by (simp add: ok_def b)
  have m: "mark_price (PAIRS ! 0) (on_price (?w r)) \<lparr>trace = [], calls = 0\<rparr> =
     (Inr (dbl_of_int 50000), ?s0)" for r
    using m0 by simp
  have nf: "\<not> falsy (dbl_of_int 50000)" by (simp add: dbl_50000)
  have c: "on_cancel (?w r) = Status 401" for r by simp
  have l: "LEVELS defaults = Some 5" by (simp add: defaults_def)
  have a: "\<forall>j<length (cycle_orders defaults (PAIRS ! 0) (dbl_of_int 50000)).
      \<exists>st'. on_order (?w 200) j = Status st' \<and> ok st'"
    by (simp add: always_def ok_def)
  have e: "on_order (?w 401) 0 = Status 401 \<and> on_text (?w 401) 0" by (simp add: always_def)
  have 1: "cycle_steps defaults (?w 200) (PAIRS ! 0) =
     (Done,
      \<lparr>trace = [PriceQuery Binance ''BTCUSDT''] @
                [CancelOrders ''BTCUSDCPERP'', CancelLogged (Some 401)] @
                map OrderSent (cycle_orders defaults (PAIRS ! 0) (dbl_of_int 50000)),
        calls = length (cycle_orders defaults (PAIRS ! 0) (dbl_of_int 50000))\<rparr>)"
    using cancel_status_not_fatal[OF m[of 200] nf c[of 200] h, where cfg = defaults] a by (simp add: b)
  have 2: "cycle_orders defaults (PAIRS ! 0) (dbl_of_int 50000) ! 0 =
     ladder_order (PAIRS ! 0) (dbl_of_int 50000) BUY 1"
    using cancel_status_not_fatal[OF m[of 200] nf c[of 200] h, where cfg = defaults] l by simp
  have 3: "cycleForPair defaults (?w 401) (PAIRS ! 0) [''BTC-USDC'' \<mapsto> 2] =
     ([PriceQuery Binance ''BTCUSDT''] @
      [CancelOrders ''BTCUSDCPERP'', CancelLogged (Some 401),
       OrderSent (cycle_orders defaults (PAIRS ! 0) (dbl_of_int 50000) ! 0), Alerted KeyExpired],
      [''BTC-USDC'' \<mapsto> 2], Some 0)"
    using cancel_status_not_fatal[OF m[of 401] nf c[of 401] h, where cfg = defaults
        and pairStates = "[''BTC-USDC'' \<mapsto> 2]"] e
    by (simp add: b)
  show ?thesis using m0 nf h l 1 2 3 by blast
qed

subsection \<open>Failure accounting\<close>

text \<open>
  Claim C3. For a pair with error counter \<open>c\<close> and a configured maximum \<open>m\<close>: a cycle
  that completes sets the counter to 0, whatever \<open>c\<close> was, and the process goes on; a
  cycle that fails with an error sets it to \<open>c + 1\<close> and alerts, and when \<open>c + 1\<close> has
  reached \<open>m\<close> the fatal alert follows and the process, with all its pairs, ends with
  exit status 1; below \<open>m\<close> the process goes on.
\<close>
theorem consecutive_errors:
  assumes "pairStates (symbol pair) = Some c" and "MAX_ERRORS cfg = Some m"
  shows "(fst (cycle_steps cfg w pair) = Done \<longrightarrow>
            cycleForPair cfg w pair pairStates =
              (trace (snd (cycle_steps cfg w pair)), pairStates(symbol pair \<mapsto> 0), None)) \<and>
         (\<forall>err. fst (cycle_steps cfg w pair) = Thrown err \<longrightarrow>
            cycleForPair cfg w pair pairStates =
              (if m \<le> int c + 1
               then (trace (snd (cycle_steps cfg w pair)) @
                       [Alerted (CycleError (Suc c) err), Alerted (Stopping err)],
                     pairStates(symbol pair \<mapsto> Suc c), Some 1)
               else (trace (snd (cycle_steps cfg w pair)) @ [Alerted (CycleError (Suc c) err)],
                     pairStates(symbol pair \<mapsto> Suc c), None)))"
proof -
  obtain r s where rs: "cycle_steps cfg w pair = (r, s)" by (cases "cycle_steps cfg w pair")
  show ?thesis
    using assms by (cases r) (auto simp: cycleForPair_def rs js_ge_def Let_def)
qed

lemma btc_binance: "binance (getSymbols (symbol (PAIRS ! 0))) = ''BTCUSDT''"
  by (simp add: PAIRS_def getSymbols_def replace_suffix_def)

lemma btc_down:
  "cycle_steps cfg \<lparr>on_price = PriceResponse 500 NoItem, on_cancel = cr, on_order = rep, on_text = txt\<rparr> (PAIRS ! 0) =
   (Thrown (BinanceApi 500), \<lparr>trace = [PriceQuery Binance ''BTCUSDT''], calls = 0\<rparr>)"
proof -
  have "symbol (PAIRS ! 0) \<noteq> ''0G-USDC''" by (simp add: PAIRS_def)
  then show ?thesis
    by (simp add: cycle_steps_def mark_price_def ok_def btc_binance)
qed

text \<open>
  The first pair with four errors behind it and the maximum 5: a price query answered 500
  is the fifth error and ends the process with status 1; a cycle that completes sets the
  counter to 0.
\<close>
theorem consecutive_errors_witness:
  "[''BTC-USDC'' \<mapsto> 4 :: nat] (symbol (PAIRS ! 0)) = Some 4 \<and> MAX_ERRORS defaults = Some 5 \<and>
   fst (cycle_steps defaults
          \<lparr>on_price = PriceResponse 500 NoItem, on_cancel = Status 200, on_order = always (Status 200), on_text = always True\<rparr>
          (PAIRS ! 0)) = Thrown (BinanceApi 500) \<and>
   cycleForPair defaults
      \<lparr>on_price = PriceResponse 500 NoItem, on_cancel = Status 200, on_order = always (Status 200), on_text = always True\<rparr>
      (PAIRS ! 0) [''BTC-USDC'' \<mapsto> 4] =
     ([PriceQuery Binance ''BTCUSDT'', Alerted (CycleError 5 (BinanceApi 500)),
       Alerted (Stopping (BinanceApi 500))],
      [''BTC-USDC'' \<mapsto> 5], Some 1) \<and>
   fst (cycle_steps defaults
          \<lparr>on_price = PriceResponse 200 (Item True (dbl_of_int 50000)),
           on_cancel = Status 200, on_order = always (Status 200), on_text = always True\<rparr> (PAIRS ! 0)) = Done \<and>
   fst (snd (cycleForPair defaults
      \<lparr>on_price = PriceResponse 200 (Item True (dbl_of_int 50000)),
       on_cancel = Status 200, on_order = always (Status 200), on_text = always True\<rparr>
      (PAIRS ! 0) [''BTC-USDC'' \<mapsto> 4])) = [''BTC-USDC'' \<mapsto> 0]"
proof -
  let ?bad = "\<lparr>on_price = PriceResponse 500 NoItem, on_cancel = Status 200, on_order = always (Status 200), on_text = always True\<rparr>"
  let ?good = "\<lparr>on_price = PriceResponse 200 (Item True (dbl_of_int 50000)),
       on_cancel = Status 200, on_order = always (Status 200), on_text = always True\<rparr>"
  have s: "[''BTC-USDC'' \<mapsto> (4::nat)] (symbol (PAIRS ! 0)) = Some 4" by (simp add: PAIRS_def)
  have mx: "MAX_ERRORS defaults = Some 5" by (simp add: defaults_def)
  have bad: "cycle_steps defaults ?bad (PAIRS ! 0) =
      (Thrown (BinanceApi 500), \<lparr>trace = [PriceQuery Binance ''BTCUSDT''], calls = 0\<rparr>)"
    by (rule btc_down)
  have sym: "symbol (PAIRS ! 0) \<noteq> ''0G-USDC''" by (simp add: PAIRS_def)
  have m: "mark_price (PAIRS ! 0) (on_price ?good) \<lparr>trace = [], calls = 0\<rparr> =
     (Inr (dbl_of_int 50000),
      \<lparr>trace = [], calls = 0\<rparr>\<lparr>trace := trace \<lparr>trace = [], calls = 0\<rparr> @
         [PriceQuery Binance (binance (getSymbols (symbol (PAIRS ! 0))))]\<rparr>)"
    using mark_price_binance[OF sym, of 200] by (simp add: ok_def)
  have nf: "\<not> falsy (dbl_of_int 50000)" by (simp add: dbl_50000)
  have c: "on_cancel ?good = Status 200" by simp
  have a: "\<forall>j<length (cycle_orders defaults (PAIRS ! 0) (dbl_of_int 50000)).
      \<exists>st. on_order ?good j = Status st \<and> ok st"
    by (simp add: always_def ok_def)
  have good: "fst (cycle_steps defaults ?good (PAIRS ! 0)) = Done"
    using cycle_steps_all_ok[OF m nf c a] by simp
  have sy: "symbol (PAIRS ! 0) = ''BTC-USDC''" by (simp add: PAIRS_def)
  have 1: "cycleForPair defaults ?bad (PAIRS ! 0) [''BTC-USDC'' \<mapsto> 4] =
     ([PriceQuery Binance ''BTCUSDT'', Alerted (CycleError 5 (BinanceApi 500)),
       Alerted (Stopping (BinanceApi 500))],
      [''BTC-USDC'' \<mapsto> 5], Some 1)"
    using consecutive_errors[where pairStates = "[''BTC-USDC'' \<mapsto> 4]" and pair = "PAIRS ! 0"
        and c = 4 and cfg = defaults and m = 5 and w = ?bad, OF s mx] bad
    by (simp add: sy)
  have 2: "fst (snd (cycleForPair defaults ?good (PAIRS ! 0) [''BTC-USDC'' \<mapsto> 4])) = [''BTC-USDC'' \<mapsto> 0]"
    using consecutive_errors[where pairStates = "[''BTC-USDC'' \<mapsto> 4]" and pair = "PAIRS ! 0"
        and c = 4 and cfg = defaults and m = 5 and w = ?good, OF s mx] good
    by (simp add: sy)
  have b: "fst (cycle_steps defaults ?bad (PAIRS ! 0)) = Thrown (BinanceApi 500)"
    using bad by simp
  show ?thesis using s mx b good 1 2 by blast
qed

text \<open>
  Claim C5, as the code does it. For every pair but the one priced by the exchange's own
  endpoint (\<^verbatim>\<open>0G-USDC\<close>): when the price query is answered and the price read from the
  answer is NaN or zero, the cycle fails with an error before any request to the exchange,
  so neither a cancellation nor an order is sent, and the pair's error counter goes up by
  one.
\<close>
theorem invalid_price_no_orders:
  assumes "symbol pair \<noteq> ''0G-USDC''"
    and "on_price w = PriceResponse st (Item truthy x)"
    and "ok st"
    and "x = NaN \<or> x = Fin 0 0"
    and "pairStates (symbol pair) = Some c"
  shows "fst (cycle_steps cfg w pair) = Thrown InvalidMarkPrice \<and>
         fst (snd (cycleForPair cfg w pair pairStates)) (symbol pair) = Some (Suc c) \<and>
         sent_orders (fst (cycleForPair cfg w pair pairStates)) = [] \<and>
         (\<forall>sym. CancelOrders sym \<notin> set (fst (cycleForPair cfg w pair pairStates)))"
proof -
  have f: "falsy x" using assms(4) by auto
  have steps: "cycle_steps cfg w pair =
      (Thrown InvalidMarkPrice,
       \<lparr>trace = [PriceQuery Binance (binance (getSymbols (symbol pair)))], calls = 0\<rparr>)"
    using mark_price_binance[OF assms(1,3), of truthy x "\<lparr>trace = [], calls = 0\<rparr>"] assms(2) f
    by (simp add: cycle_steps_def)
  show ?thesis
    using assms(5) by (auto simp: cycleForPair_def steps Let_def)
qed

text \<open>The first pair, whose price is read as zero.\<close>
theorem invalid_price_no_orders_witness:
  "symbol (PAIRS ! 0) \<noteq> ''0G-USDC'' \<and> ok 200 \<and>
   [''BTC-USDC'' \<mapsto> 0 :: nat] (symbol (PAIRS ! 0)) = Some 0 \<and>
   fst (cycle_steps defaults
          \<lparr>on_price = PriceResponse 200 (Item True (Fin 0 0)),
           on_cancel = Status 200, on_order = always (Status 200), on_text = always True\<rparr> (PAIRS ! 0)) =
     Thrown InvalidMarkPrice \<and>
   fst (snd (cycleForPair defaults
          \<lparr>on_price = PriceResponse 200 (Item True (Fin 0 0)),
           on_cancel = Status 200, on_order = always (Status 200), on_text = always True\<rparr> (PAIRS ! 0)
          [''BTC-USDC'' \<mapsto> 0])) (symbol (PAIRS ! 0)) = Some (Suc 0) \<and>
   sent_orders (fst (cycleForPair defaults
          \<lparr>on_price = PriceResponse 200 (Item True (Fin 0 0)),
           on_cancel = Status 200, on_order = always (Status 200), on_text = always True\<rparr> (PAIRS ! 0)
          [''BTC-USDC'' \<mapsto> 0])) = []"
proof -
  let ?w = "\<lparr>on_price = PriceResponse 200 (Item True (Fin 0 0)),
           on_cancel = Status 200, on_order = always (Status 200), on_text = always True\<rparr>"
  have sym: "symbol (PAIRS ! 0) \<noteq> ''0G-USDC''" by (simp add: PAIRS_def)
  have p: "on_price ?w = PriceResponse 200 (Item True (Fin 0 0))" by simp
  have o: "ok 200" by (simp add: ok_def)
  have x: "Fin 0 0 = NaN \<or> Fin 0 0 = Fin 0 0" by simp
  have s: "[''BTC-USDC'' \<mapsto> (0::nat)] (symbol (PAIRS ! 0)) = Some 0" by (simp add: PAIRS_def)
  show ?thesis
    using invalid_price_no_orders[of "PAIRS ! 0" ?w 200 True "Fin 0 0" "[''BTC-USDC'' \<mapsto> 0]" 0 defaults,
        OF sym p o x s] sym o s by blast
qed

lemma og_symbol: "symbol (PAIRS ! 3) = ''0G-USDC''"
  by (simp add: PAIRS_def)

lemma og_zero_price_steps:
  "cycle_steps defaults
     \<lparr>on_price = PriceResponse 200 (Item True (Fin 0 0)),
      on_cancel = Status 200, on_order = always (Status 200), on_text = always True\<rparr> (PAIRS ! 3) =
   (Done,
    \<lparr>trace = [PriceQuery Exchange (backend (getSymbols (symbol (PAIRS ! 3))))] @
              [CancelOrders (backend (getSymbols (symbol (PAIRS ! 3)))), CancelLogged None] @
              map OrderSent (cycle_orders defaults (PAIRS ! 3) (round_frac 4 100)),
     calls = length (cycle_orders defaults (PAIRS ! 3) (round_frac 4 100))\<rparr>)"
proof -
  let ?w = "\<lparr>on_price = PriceResponse 200 (Item True (Fin 0 0)),
      on_cancel = Status 200, on_order = always (Status 200), on_text = always True\<rparr>"
  have m: "mark_price (PAIRS ! 3) (on_price ?w) \<lparr>trace = [], calls = 0\<rparr> =
     (Inr (round_frac 4 100),
      \<lparr>trace = [PriceQuery Exchange (backend (getSymbols (symbol (PAIRS ! 3))))], calls = 0\<rparr>)"
    using mark_price_exchange[OF og_symbol, of 200 "Item True (Fin 0 0)" "\<lparr>trace = [], calls = 0\<rparr>"]
    by (simp add: ok_def)
  have nf: "\<not> falsy (round_frac 4 100)" by (simp add: fallback_price)
  have c: "on_cancel ?w = Status 200" by simp
  have a: "\<forall>j<length (cycle_orders defaults (PAIRS ! 3) (round_frac 4 100)).
      \<exists>st. on_order ?w j = Status st \<and> ok st"
    by (simp add: always_def ok_def)
  show ?thesis using cycle_steps_all_ok[OF m nf c a] by (simp add: ok_def)
qed

text \<open>
  The pair \<^verbatim>\<open>0G-USDC\<close> is different: a price read as zero is replaced by the nominal
  price 0.04, the cycle runs and sends its twelve orders, and the error counter is reset.
\<close>
theorem invalid_price_fallback_counterexample:
  "fst (snd (cycleForPair defaults
          \<lparr>on_price = PriceResponse 200 (Item True (Fin 0 0)),
           on_cancel = Status 200, on_order = always (Status 200), on_text = always True\<rparr> (PAIRS ! 3)
          [''0G-USDC'' \<mapsto> 2])) ''0G-USDC'' = Some 0 \<and>
   snd (snd (cycleForPair defaults
          \<lparr>on_price = PriceResponse 200 (Item True (Fin 0 0)),
           on_cancel = Status 200, on_order = always (Status 200), on_text = always True\<rparr> (PAIRS ! 3)
          [''0G-USDC'' \<mapsto> 2])) = None \<and>
   length (sent_orders (fst (cycleForPair defaults
          \<lparr>on_price = PriceResponse 200 (Item True (Fin 0 0)),
           on_cancel = Status 200, on_order = always (Status 200), on_text = always True\<rparr> (PAIRS ! 3)
          [''0G-USDC'' \<mapsto> 2]))) = 12"
proof -
  have "cycleForPair defaults
          \<lparr>on_price = PriceResponse 200 (Item True (Fin 0 0)),
           on_cancel = Status 200, on_order = always (Status 200), on_text = always True\<rparr> (PAIRS ! 3)
          [''0G-USDC'' \<mapsto> 2] =
        ([PriceQuery Exchange (backend (getSymbols (symbol (PAIRS ! 3))))] @
         [CancelOrders (backend (getSymbols (symbol (PAIRS ! 3)))), CancelLogged None] @
         map OrderSent (cycle_orders defaults (PAIRS ! 3) (round_frac 4 100)),
         [''0G-USDC'' \<mapsto> 0], None)"
    by (simp add: cycleForPair_def og_zero_price_steps og_symbol)
  moreover have "length (cycle_orders defaults (PAIRS ! 3) (round_frac 4 100)) = 12"
    by (simp add: length_cycle_orders level_list_def defaults_def)
  ultimately show ?thesis by (simp add: sent_orders_append sent_orders_map)
qed

lemma cycleForPair_frame:
  "k \<noteq> symbol pair \<Longrightarrow> fst (snd (cycleForPair cfg w pair pairStates)) k = pairStates k"
  by (auto simp: cycleForPair_def Let_def split: prod.splits option.splits outcome.splits)

lemma cycleForPair_local:
  "states (symbol pair) = states' (symbol pair) \<Longrightarrow>
   fst (cycleForPair cfg w pair states) = fst (cycleForPair cfg w pair states') \<and>
   snd (snd (cycleForPair cfg w pair states)) = snd (snd (cycleForPair cfg w pair states')) \<and>
   fst (snd (cycleForPair cfg w pair states)) (symbol pair) =
   fst (snd (cycleForPair cfg w pair states')) (symbol pair)"
  by (auto simp: cycleForPair_def Let_def split: prod.splits option.splits outcome.splits)

text \<open>
  The counters of two pairs. For two pairs of different symbols, a cycle of the one, failed
  or not, leaves the error counter of the other as it was, and a cycle of the other does,
  ends and counts the same after it as without it: a cycle reads and writes the counter of
  its own symbol only. This is a statement about the memory of the cycles, one cycle after
  the other. The cycles of a tick run concurrently, and a cycle that ends the process ends
  the cycles of the other pairs with it: neither the time a cycle takes nor the
  interleaving of the cycles is part of this model.
\<close>
theorem pair_states_frame:
  assumes "symbol a \<noteq> symbol b"
  shows "fst (snd (cycleForPair cfg wa a pairStates)) (symbol b) = pairStates (symbol b) \<and>
         fst (cycleForPair cfg wb b (fst (snd (cycleForPair cfg wa a pairStates)))) =
         fst (cycleForPair cfg wb b pairStates) \<and>
         snd (snd (cycleForPair cfg wb b (fst (snd (cycleForPair cfg wa a pairStates))))) =
         snd (snd (cycleForPair cfg wb b pairStates)) \<and>
         fst (snd (cycleForPair cfg wb b (fst (snd (cycleForPair cfg wa a pairStates))))) (symbol b) =
         fst (snd (cycleForPair cfg wb b pairStates)) (symbol b)"
proof -
  have 1: "fst (snd (cycleForPair cfg wa a pairStates)) (symbol b) = pairStates (symbol b)"
    using assms cycleForPair_frame[of "symbol b" a cfg wa pairStates] by simp
  from cycleForPair_local[where states = "fst (snd (cycleForPair cfg wa a pairStates))"
      and states' = pairStates and pair = b and cfg = cfg and w = wb, OF 1]
  show ?thesis using 1 by blast
qed

text \<open>A failed cycle of the first pair and the counter of the second.\<close>
theorem pair_states_frame_witness:
  "symbol (PAIRS ! 0) \<noteq> symbol (PAIRS ! 1) \<and>
   fst (snd (cycleForPair defaults
      \<lparr>on_price = PriceResponse 500 NoItem, on_cancel = Status 200, on_order = always (Status 200), on_text = always True\<rparr>
      (PAIRS ! 0) [''BTC-USDC'' \<mapsto> 0, ''ETH-USDC'' \<mapsto> 3])) (symbol (PAIRS ! 1)) = Some 3 \<and>
   fst (snd (cycleForPair defaults
      \<lparr>on_price = PriceResponse 500 NoItem, on_cancel = Status 200, on_order = always (Status 200), on_text = always True\<rparr>
      (PAIRS ! 0) [''BTC-USDC'' \<mapsto> 0, ''ETH-USDC'' \<mapsto> 3])) (symbol (PAIRS ! 0)) = Some 1"
proof -
  let ?bad = "\<lparr>on_price = PriceResponse 500 NoItem, on_cancel = Status 200, on_order = always (Status 200), on_text = always True\<rparr>"
  have h: "symbol (PAIRS ! 0) \<noteq> symbol (PAIRS ! 1)" by (simp add: PAIRS_def)
  have sy: "symbol (PAIRS ! 0) = ''BTC-USDC''" "symbol (PAIRS ! 1) = ''ETH-USDC''"
    by (simp_all add: PAIRS_def)
  have v: "[''BTC-USDC'' \<mapsto> 0 :: nat, ''ETH-USDC'' \<mapsto> 3] (symbol (PAIRS ! 1)) = Some 3"
    by (simp add: PAIRS_def)
  have "fst (snd (cycleForPair defaults ?bad (PAIRS ! 0) [''BTC-USDC'' \<mapsto> 0, ''ETH-USDC'' \<mapsto> 3]))
      (symbol (PAIRS ! 1)) = [''BTC-USDC'' \<mapsto> 0, ''ETH-USDC'' \<mapsto> 3] (symbol (PAIRS ! 1))"
    using pair_states_frame[where a = "PAIRS ! 0" and b = "PAIRS ! 1" and cfg = defaults
        and wa = ?bad and wb = ?bad and pairStates = "[''BTC-USDC'' \<mapsto> 0, ''ETH-USDC'' \<mapsto> 3]",
        OF h]
    by (rule conjunct1)
  then have 1: "fst (snd (cycleForPair defaults ?bad (PAIRS ! 0) [''BTC-USDC'' \<mapsto> 0, ''ETH-USDC'' \<mapsto> 3]))
      (symbol (PAIRS ! 1)) = Some 3"
    using v by (simp only:)
  have 2: "fst (snd (cycleForPair defaults ?bad (PAIRS ! 0) [''BTC-USDC'' \<mapsto> 0, ''ETH-USDC'' \<mapsto> 3]))
      (symbol (PAIRS ! 0)) = Some 1"
    by (simp add: cycleForPair_def btc_down sy js_ge_def defaults_def)
  show ?thesis using h 1 2 by blast
qed

subsection \<open>The ladder\<close>

lemma post_order_sent:
  "post_order w x s = (r, s1) \<Longrightarrow> sent_orders (trace s1) = sent_orders (trace s) @ [x]"
  by (auto simp: post_order_def Let_def sent_orders_append split: reply.splits if_splits)

lemma post_orders_prefix:
  "post_orders w os s = (r, s') \<Longrightarrow>
   \<exists>n\<le>length os. sent_orders (trace s') = sent_orders (trace s) @ take n os \<and>
     (r = Done \<longrightarrow> n = length os)"
proof (induction os arbitrary: s)
  case Nil
  then show ?case by simp
next
  case (Cons x xs)
  obtain r1 s1 where p: "post_order w x s = (r1, s1)" by (cases "post_order w x s")
  have sent: "sent_orders (trace s1) = sent_orders (trace s) @ [x]"
    using post_order_sent[OF p] .
  show ?case
  proof (cases "r1 = Done")
    case True
    then have "post_orders w xs s1 = (r, s')" using Cons.prems p by simp
    from Cons.IH[OF this] obtain n where n: "n \<le> length xs"
      "sent_orders (trace s') = sent_orders (trace s1) @ take n xs" "r = Done \<longrightarrow> n = length xs"
      by blast
    have "Suc n \<le> length (x # xs)" using n(1) by simp
    moreover have "sent_orders (trace s') = sent_orders (trace s) @ take (Suc n) (x # xs)"
      using n(2) sent by simp
    moreover have "r = Done \<longrightarrow> Suc n = length (x # xs)" using n(3) by simp
    ultimately show ?thesis by blast
  next
    case False
    then have rs: "r = r1" "s' = s1" using Cons.prems p by (cases r1; simp)+
    have "(1::nat) \<le> length (x # xs)" by simp
    moreover have "sent_orders (trace s') = sent_orders (trace s) @ take 1 (x # xs)"
      using sent rs by simp
    moreover have "r = Done \<longrightarrow> 1 = length (x # xs)" using rs False by simp
    ultimately show ?thesis by blast
  qed
qed

lemma cycle_steps_prefix:
  assumes "fst (mark_price pair (on_price w) \<lparr>trace = [], calls = 0\<rparr>) = Inr markPrice"
  shows "\<exists>n\<le>length (cycle_orders cfg pair markPrice).
           sent_orders (trace (snd (cycle_steps cfg w pair))) = take n (cycle_orders cfg pair markPrice) \<and>
           (fst (cycle_steps cfg w pair) = Done \<longrightarrow> n = length (cycle_orders cfg pair markPrice))"
proof -
  obtain s0 where m: "mark_price pair (on_price w) \<lparr>trace = [], calls = 0\<rparr> = (Inr markPrice, s0)"
    using assms by (cases "mark_price pair (on_price w) \<lparr>trace = [], calls = 0\<rparr>") simp
  obtain v sym where t0: "trace s0 = [PriceQuery v sym]"
    using mark_price_run[OF m] by auto
  show ?thesis
  proof (cases "falsy markPrice")
    case True
    then have "cycle_steps cfg w pair = (Thrown InvalidMarkPrice, s0)"
      using m by (simp add: cycle_steps_def)
    then have "sent_orders (trace (snd (cycle_steps cfg w pair))) = take 0 (cycle_orders cfg pair markPrice)"
      "fst (cycle_steps cfg w pair) \<noteq> Done"
      using t0 by simp_all
    then show ?thesis by blast
  next
    case False
    show ?thesis
    proof (cases "on_cancel w")
      case Rejected
      then have "cycle_steps cfg w pair =
          (Thrown FetchFailed, s0\<lparr>trace := trace s0 @ [CancelOrders (backend (getSymbols (symbol pair)))]\<rparr>)"
        using m False by (simp add: cycle_steps_def and_then_def cancel_orders_def Let_def)
      then have "sent_orders (trace (snd (cycle_steps cfg w pair))) = take 0 (cycle_orders cfg pair markPrice)"
        "fst (cycle_steps cfg w pair) \<noteq> Done"
        using t0 by simp_all
      then show ?thesis by blast
    next
      case (Status st)
      let ?s1 = "\<lparr>trace = trace s0 @ [CancelOrders (backend (getSymbols (symbol pair))),
                                  CancelLogged (if ok st then None else Some st)], calls = 0\<rparr>"
      have steps: "cycle_steps cfg w pair = post_orders w (cycle_orders cfg pair markPrice) ?s1"
        using cycle_steps_orders[OF m False Status] .
      obtain r s' where p: "post_orders w (cycle_orders cfg pair markPrice) ?s1 = (r, s')"
        by (cases "post_orders w (cycle_orders cfg pair markPrice) ?s1")
      from post_orders_prefix[OF p] obtain n where n: "n \<le> length (cycle_orders cfg pair markPrice)"
        "sent_orders (trace s') = sent_orders (trace ?s1) @ take n (cycle_orders cfg pair markPrice)"
        "r = Done \<longrightarrow> n = length (cycle_orders cfg pair markPrice)" by blast
      have "sent_orders (trace ?s1) = []" using t0 by simp
      then have "sent_orders (trace (snd (cycle_steps cfg w pair))) = take n (cycle_orders cfg pair markPrice)"
        using n(2) steps p by simp
      moreover have "fst (cycle_steps cfg w pair) = Done \<longrightarrow> n = length (cycle_orders cfg pair markPrice)"
        using n(3) steps p by simp
      ultimately show ?thesis using n(1) by blast
    qed
  qed
qed

lemma cycle_orders_nth:
  assumes "LEVELS cfg = Some l" "1 \<le> i" "i \<le> l"
  shows "cycle_orders cfg pair markPrice ! (nat i - 1) = ladder_order pair markPrice BUY i"
    and "cycle_orders cfg pair markPrice ! (nat (l + i) - 1) = ladder_order pair markPrice SELL i"
proof -
  have len: "length [1..l] = nat l" by simp
  have i1: "nat i - 1 < nat l" using assms(2,3) by simp
  have up: "[1..l] ! (nat i - 1) = i" using assms(2,3) by simp
  show "cycle_orders cfg pair markPrice ! (nat i - 1) = ladder_order pair markPrice BUY i"
    using i1 up by (simp add: cycle_orders_def level_list_def assms(1) nth_append)
  let ?B = "map (ladder_order pair markPrice BUY) [1..l]"
  let ?S = "map (ladder_order pair markPrice SELL) [1..l]"
  let ?M = "[match_order pair markPrice BUY, match_order pair markPrice SELL]"
  have co: "cycle_orders cfg pair markPrice = ?B @ (?S @ ?M)"
    by (simp add: cycle_orders_def level_list_def assms(1))
  have idx: "nat (l + i) - 1 = length ?B + (nat i - 1)" using assms(2,3) by simp
  have "(?B @ (?S @ ?M)) ! (length ?B + (nat i - 1)) = (?S @ ?M) ! (nat i - 1)"
    by (rule nth_append_length_plus)
  also have "\<dots> = ?S ! (nat i - 1)" using i1 by (simp add: nth_append)
  also have "\<dots> = ladder_order pair markPrice SELL i" using i1 up by simp
  finally show "cycle_orders cfg pair markPrice ! (nat (l + i) - 1) = ladder_order pair markPrice SELL i"
    by (simp only: co idx)
qed

lemma level3_factor: "fadd (dbl_of_int 1) (fmul (dbl_of_int (3 - 1)) (round_frac 5 10)) = dbl_of_int 2"
  by code_simp

lemma bid1: "level_price BUY (dbl_of_int 50000) (round_frac 1 1000) 1 = Fixed False 499500000"
  by code_simp

lemma ask1: "level_price SELL (dbl_of_int 50000) (round_frac 1 1000) 1 = Fixed False 500500000"
  by code_simp

lemma bid3: "level_price BUY (dbl_of_int 50000) (round_frac 1 1000) 3 = Fixed False 498500000"
  by code_simp

lemma ask3: "level_price SELL (dbl_of_int 50000) (round_frac 1 1000) 3 = Fixed False 501500000"
  by code_simp

lemma strings50000:
  "fixed_string False 499500000 = ''49950.0000''" "fixed_string False 500500000 = ''50050.0000''"
  "fixed_string False 498500000 = ''49850.0000''" "fixed_string False 501500000 = ''50150.0000''"
  by code_simp+

lemma og_bid1: "level_price BUY (round_frac 4 100) SPREAD 1 = Fixed False 400"
  by code_simp

lemma og_values:
  "fixed_string False 400 = ''0.0400''"
  "numstr_value (Fixed False 400) = Some (1 / 25)"
  "ladder_price_spec BUY (4 / 100) (1 / 1000) 1 = 999 / 25000"
  by code_simp+

text \<open>
  Claim C2, with the rounding the code applies. For every level \<open>i\<close> in \<open>1..LEVELS\<close>, the
  \<open>i\<close>-th order a cycle sends is the BUY order of level \<open>i\<close> and the \<open>(LEVELS + i)\<close>-th
  the SELL order; the price sent is the double \<open>markPrice * (1 \<mp> spread * i)\<close> brought to
  four decimals by \<^verbatim>\<open>toFixed(4)\<close>, the quantity the double
  \<open>quantity * (1 + (i - 1) * 0.5)\<close> brought to four decimals. At a mark price of 50000 and
  a spread of 0.001 the strings are 49950.0000 and 50050.0000 for level 1, 49850.0000 and
  50150.0000 for level 3, and at level 3 the quantity is twice the configured one,
  brought to four decimals.
\<close>
theorem ladder_prices_rounded:
  assumes "fst (mark_price pair (on_price w) \<lparr>trace = [], calls = 0\<rparr>) = Inr markPrice"
    and "LEVELS cfg = Some l" and "1 \<le> i" and "i \<le> l"
  shows "(nat i \<le> length (sent_orders (trace (snd (cycle_steps cfg w pair)))) \<longrightarrow>
            sent_orders (trace (snd (cycle_steps cfg w pair))) ! (nat i - 1) =
              \<lparr>o_productId = productId pair,
               o_quantity = toFixed4 (fmul (quantity pair)
                  (fadd (dbl_of_int 1) (fmul (dbl_of_int (i - 1)) (round_frac 5 10)))),
               o_side = BUY,
               o_symbol = backend (getSymbols (symbol pair)),
               o_type = ''LIMIT'',
               o_timeInForce = Some ''GTC'',
               o_price = Some (toFixed4 (fmul markPrice
                  (fsub (dbl_of_int 1) (fmul (spread pair) (dbl_of_int i)))))\<rparr>) \<and>
         (nat (l + i) \<le> length (sent_orders (trace (snd (cycle_steps cfg w pair)))) \<longrightarrow>
            sent_orders (trace (snd (cycle_steps cfg w pair))) ! (nat (l + i) - 1) =
              \<lparr>o_productId = productId pair,
               o_quantity = toFixed4 (fmul (quantity pair)
                  (fadd (dbl_of_int 1) (fmul (dbl_of_int (i - 1)) (round_frac 5 10)))),
               o_side = SELL,
               o_symbol = backend (getSymbols (symbol pair)),
               o_type = ''LIMIT'',
               o_timeInForce = Some ''GTC'',
               o_price = Some (toFixed4 (fmul markPrice
                  (fadd (dbl_of_int 1) (fmul (spread pair) (dbl_of_int i)))))\<rparr>) \<and>
         (fst (cycle_steps cfg w pair) = Done \<longrightarrow>
            length (sent_orders (trace (snd (cycle_steps cfg w pair)))) = nat (2 * l + 2)) \<and>
         toFixed4 (fmul (dbl_of_int 50000)
            (fsub (dbl_of_int 1) (fmul (round_frac 1 1000) (dbl_of_int 1)))) = Fixed False 499500000 \<and>
         fixed_string False 499500000 = ''49950.0000'' \<and>
         toFixed4 (fmul (dbl_of_int 50000)
            (fadd (dbl_of_int 1) (fmul (round_frac 1 1000) (dbl_of_int 1)))) = Fixed False 500500000 \<and>
         fixed_string False 500500000 = ''50050.0000'' \<and>
         toFixed4 (fmul (dbl_of_int 50000)
            (fsub (dbl_of_int 1) (fmul (round_frac 1 1000) (dbl_of_int 3)))) = Fixed False 498500000 \<and>
         fixed_string False 498500000 = ''49850.0000'' \<and>
         toFixed4 (fmul (dbl_of_int 50000)
            (fadd (dbl_of_int 1) (fmul (round_frac 1 1000) (dbl_of_int 3)))) = Fixed False 501500000 \<and>
         fixed_string False 501500000 = ''50150.0000'' \<and>
         toFixed4 (fmul q (fadd (dbl_of_int 1) (fmul (dbl_of_int (3 - 1)) (round_frac 5 10)))) =
           toFixed4 (fmul q (dbl_of_int 2))"
proof -
  let ?sent = "sent_orders (trace (snd (cycle_steps cfg w pair)))"
  obtain n where n: "n \<le> length (cycle_orders cfg pair markPrice)"
    "?sent = take n (cycle_orders cfg pair markPrice)"
    "fst (cycle_steps cfg w pair) = Done \<longrightarrow> n = length (cycle_orders cfg pair markPrice)"
    using cycle_steps_prefix[OF assms(1), of cfg] by blast
  have len: "length ?sent = n" using n(1,2) by simp
  have i0: "0 < nat i" using assms(3) by simp
  have b: "nat i \<le> length ?sent \<longrightarrow> ?sent ! (nat i - 1) = ladder_order pair markPrice BUY i"
  proof
    assume "nat i \<le> length ?sent"
    then have "nat i - 1 < n" using len i0 by simp
    then have "?sent ! (nat i - 1) = cycle_orders cfg pair markPrice ! (nat i - 1)"
      using n(2) by simp
    then show "?sent ! (nat i - 1) = ladder_order pair markPrice BUY i"
      using cycle_orders_nth(1)[OF assms(2,3,4)] by simp
  qed
  have s: "nat (l + i) \<le> length ?sent \<longrightarrow> ?sent ! (nat (l + i) - 1) = ladder_order pair markPrice SELL i"
  proof
    assume "nat (l + i) \<le> length ?sent"
    moreover have "0 < nat (l + i)" using assms(3,4) by simp
    ultimately have "nat (l + i) - 1 < n" using len by simp
    then have "?sent ! (nat (l + i) - 1) = cycle_orders cfg pair markPrice ! (nat (l + i) - 1)"
      using n(2) by simp
    then show "?sent ! (nat (l + i) - 1) = ladder_order pair markPrice SELL i"
      using cycle_orders_nth(2)[OF assms(2,3,4)] by simp
  qed
  have "length (cycle_orders cfg pair markPrice) = nat (2 * l + 2)"
    using assms(2,3,4) by (simp add: length_cycle_orders level_list_def)
  then have d: "fst (cycle_steps cfg w pair) = Done \<longrightarrow> length ?sent = nat (2 * l + 2)"
    using n(3) len by simp
  have q: "toFixed4 (fmul q (fadd (dbl_of_int 1) (fmul (dbl_of_int (3 - 1)) (round_frac 5 10)))) =
           toFixed4 (fmul q (dbl_of_int 2))"
    by (simp only: level3_factor)
  show ?thesis
    using b s d q bid1 ask1 bid3 ask3 strings50000
    unfolding ladder_order_def level_price_def level_qty_def parseFloat_number_def
    by simp
qed

lemma btc_spread: "spread (PAIRS ! 0) = round_frac 1 1000"
  by (simp add: PAIRS_def SPREAD_def)

text \<open>The third bid and the third ask of a completed cycle of the first pair at 50000.\<close>
theorem ladder_prices_rounded_witness:
  "fst (mark_price (PAIRS ! 0) (on_price
      \<lparr>on_price = PriceResponse 200 (Item True (dbl_of_int 50000)),
       on_cancel = Status 200, on_order = always (Status 200), on_text = always True\<rparr>) \<lparr>trace = [], calls = 0\<rparr>) =
     Inr (dbl_of_int 50000) \<and>
   LEVELS defaults = Some 5 \<and> (1::int) \<le> 3 \<and> (3::int) \<le> 5 \<and>
   length (sent_orders (trace (snd (cycle_steps defaults
      \<lparr>on_price = PriceResponse 200 (Item True (dbl_of_int 50000)),
       on_cancel = Status 200, on_order = always (Status 200), on_text = always True\<rparr> (PAIRS ! 0))))) = 12 \<and>
   o_price (sent_orders (trace (snd (cycle_steps defaults
      \<lparr>on_price = PriceResponse 200 (Item True (dbl_of_int 50000)),
       on_cancel = Status 200, on_order = always (Status 200), on_text = always True\<rparr> (PAIRS ! 0)))) ! 2) =
     Some (Fixed False 498500000) \<and>
   o_price (sent_orders (trace (snd (cycle_steps defaults
      \<lparr>on_price = PriceResponse 200 (Item True (dbl_of_int 50000)),
       on_cancel = Status 200, on_order = always (Status 200), on_text = always True\<rparr> (PAIRS ! 0)))) ! 7) =
     Some (Fixed False 501500000)"
proof -
  let ?w = "\<lparr>on_price = PriceResponse 200 (Item True (dbl_of_int 50000)),
       on_cancel = Status 200, on_order = always (Status 200), on_text = always True\<rparr>"
  let ?sent = "sent_orders (trace (snd (cycle_steps defaults ?w (PAIRS ! 0))))"
  have sym: "symbol (PAIRS ! 0) \<noteq> ''0G-USDC''" by (simp add: PAIRS_def)
  have m: "mark_price (PAIRS ! 0) (on_price ?w) \<lparr>trace = [], calls = 0\<rparr> =
     (Inr (dbl_of_int 50000),
      \<lparr>trace = [], calls = 0\<rparr>\<lparr>trace := trace \<lparr>trace = [], calls = 0\<rparr> @
         [PriceQuery Binance (binance (getSymbols (symbol (PAIRS ! 0))))]\<rparr>)"
    using mark_price_binance[OF sym, of 200] by (simp add: ok_def)
  have h1: "fst (mark_price (PAIRS ! 0) (on_price ?w) \<lparr>trace = [], calls = 0\<rparr>) = Inr (dbl_of_int 50000)"
    using m by simp
  have h2: "LEVELS defaults = Some 5" by (simp add: defaults_def)
  have h3: "(1::int) \<le> 3" and h4: "(3::int) \<le> 5" by simp_all
  have nf: "\<not> falsy (dbl_of_int 50000)" by (simp add: dbl_50000)
  have c: "on_cancel ?w = Status 200" by simp
  have a: "\<forall>j<length (cycle_orders defaults (PAIRS ! 0) (dbl_of_int 50000)).
      \<exists>st. on_order ?w j = Status st \<and> ok st"
    by (simp add: always_def ok_def)
  have d: "fst (cycle_steps defaults ?w (PAIRS ! 0)) = Done"
    using cycle_steps_all_ok[OF m nf c a] by simp
  note t = ladder_prices_rounded[OF h1 h2 h3 h4, of "dbl_of_int 0"]
  have len: "length ?sent = 12" using t d by simp
  have "nat 3 \<le> length ?sent" "nat (5 + 3) \<le> length ?sent" using len by simp_all
  then have "o_price (?sent ! (nat 3 - 1)) =
      Some (toFixed4 (fmul (dbl_of_int 50000) (fsub (dbl_of_int 1) (fmul (spread (PAIRS ! 0)) (dbl_of_int 3)))))"
    and "o_price (?sent ! (nat (5 + 3) - 1)) =
      Some (toFixed4 (fmul (dbl_of_int 50000) (fadd (dbl_of_int 1) (fmul (spread (PAIRS ! 0)) (dbl_of_int 3)))))"
    using t by simp_all
  then have "o_price (?sent ! 2) = Some (Fixed False 498500000)"
    and "o_price (?sent ! 7) = Some (Fixed False 501500000)"
    using t by (simp_all add: btc_spread)
  then show ?thesis using h1 h2 len by simp
qed

lemma og_down_steps:
  "cycle_steps defaults
     \<lparr>on_price = PriceResponse 404 NoItem,
      on_cancel = Status 200, on_order = always (Status 200), on_text = always True\<rparr> (PAIRS ! 3) =
   (Done,
    \<lparr>trace = [PriceQuery Exchange (backend (getSymbols (symbol (PAIRS ! 3))))] @
              [CancelOrders (backend (getSymbols (symbol (PAIRS ! 3)))), CancelLogged None] @
              map OrderSent (cycle_orders defaults (PAIRS ! 3) (round_frac 4 100)),
     calls = length (cycle_orders defaults (PAIRS ! 3) (round_frac 4 100))\<rparr>)"
proof -
  let ?w = "\<lparr>on_price = PriceResponse 404 NoItem,
      on_cancel = Status 200, on_order = always (Status 200), on_text = always True\<rparr>"
  have m: "mark_price (PAIRS ! 3) (on_price ?w) \<lparr>trace = [], calls = 0\<rparr> =
     (Inr (round_frac 4 100),
      \<lparr>trace = [PriceQuery Exchange (backend (getSymbols (symbol (PAIRS ! 3))))], calls = 0\<rparr>)"
    using mark_price_exchange[OF og_symbol, of 404 NoItem "\<lparr>trace = [], calls = 0\<rparr>"]
    by (simp add: ok_def)
  have nf: "\<not> falsy (round_frac 4 100)" by (simp add: fallback_price)
  have c: "on_cancel ?w = Status 200" by simp
  have a: "\<forall>j<length (cycle_orders defaults (PAIRS ! 3) (round_frac 4 100)).
      \<exists>st. on_order ?w j = Status st \<and> ok st"
    by (simp add: always_def ok_def)
  show ?thesis using cycle_steps_all_ok[OF m nf c a] by (simp add: ok_def)
qed

text \<open>
  The price sent is not the product itself. When its own endpoint is down, the pair
  \<^verbatim>\<open>0G-USDC\<close> is priced at 0.04; the first bid of its ladder goes out at 0.0400, the
  product \<open>0.04 \<times> (1 - 0.001)\<close> being 0.03996.
\<close>
theorem ladder_price_rounding_counterexample:
  "o_price (sent_orders (fst (cycleForPair defaults
      \<lparr>on_price = PriceResponse 404 NoItem,
       on_cancel = Status 200, on_order = always (Status 200), on_text = always True\<rparr> (PAIRS ! 3)
      [''0G-USDC'' \<mapsto> 0])) ! 0) = Some (Fixed False 400) \<and>
   fixed_string False 400 = ''0.0400'' \<and>
   numstr_value (Fixed False 400) = Some (1 / 25) \<and>
   ladder_price_spec BUY (4 / 100) (1 / 1000) 1 = 999 / 25000"
proof -
  have "cycleForPair defaults
          \<lparr>on_price = PriceResponse 404 NoItem,
           on_cancel = Status 200, on_order = always (Status 200), on_text = always True\<rparr> (PAIRS ! 3)
          [''0G-USDC'' \<mapsto> 0] =
        ([PriceQuery Exchange (backend (getSymbols (symbol (PAIRS ! 3))))] @
         [CancelOrders (backend (getSymbols (symbol (PAIRS ! 3)))), CancelLogged None] @
         map OrderSent (cycle_orders defaults (PAIRS ! 3) (round_frac 4 100)),
         [''0G-USDC'' \<mapsto> 0], None)"
    by (simp add: cycleForPair_def og_down_steps og_symbol)
  then have "sent_orders (fst (cycleForPair defaults
      \<lparr>on_price = PriceResponse 404 NoItem,
       on_cancel = Status 200, on_order = always (Status 200), on_text = always True\<rparr> (PAIRS ! 3)
      [''0G-USDC'' \<mapsto> 0])) = cycle_orders defaults (PAIRS ! 3) (round_frac 4 100)"
    by (simp add: sent_orders_append sent_orders_map)
  moreover have "cycle_orders defaults (PAIRS ! 3) (round_frac 4 100) ! 0 =
      ladder_order (PAIRS ! 3) (round_frac 4 100) BUY 1"
    using cycle_orders_nth(1)[of defaults 5 1 "PAIRS ! 3" "round_frac 4 100"]
    by (simp add: defaults_def)
  moreover have "o_price (ladder_order (PAIRS ! 3) (round_frac 4 100) BUY 1) = Some (Fixed False 400)"
  proof -
    have "spread (PAIRS ! 3) = SPREAD" by (simp add: PAIRS_def)
    then show ?thesis by (simp add: ladder_order_def og_bid1)
  qed
  ultimately show ?thesis using og_values by simp
qed

subsection \<open>The price of the matching orders\<close>

lemma binance_price: "round_frac 6789012345678 100000000 = Fin 4665373759492361 (- 36)"
  by code_simp

lemma binance_price_sent:
  "toFixed4 (round_frac 6789012345678 100000000) = Fixed False 678901235"
  "fixed_string False 678901235 = ''67890.1235''"
  "numstr_value (Fixed False 678901235) = Some (135780247 / 2000)"
  "numstr_value (NumToString (round_frac 6789012345678 100000000)) =
     Some (4665373759492361 / 68719476736)"
  by code_simp+

lemma cycle_orders_match_buy:
  "cycle_orders defaults pair markPrice ! 10 = match_order pair markPrice BUY"
  by (simp add: cycle_orders_def level_list_def defaults_def nth_append)

text \<open>
  The matching orders are not at the mark price itself when it has more than four
  decimals: at a mark price of 67890.12345678 the eleventh order of the cycle, the
  matching BUY, goes out at 67890.1235.
\<close>

theorem self_cross_price_rounding_counterexample:
  "o_price (sent_orders (fst (cycleForPair defaults
      \<lparr>on_price = PriceResponse 200 (Item True (round_frac 6789012345678 100000000)),
       on_cancel = Status 200, on_order = always (Status 200), on_text = always True\<rparr> (PAIRS ! 0)
      [''BTC-USDC'' \<mapsto> 0])) ! 10) = Some (Fixed False 678901235) \<and>
   o_side (sent_orders (fst (cycleForPair defaults
      \<lparr>on_price = PriceResponse 200 (Item True (round_frac 6789012345678 100000000)),
       on_cancel = Status 200, on_order = always (Status 200), on_text = always True\<rparr> (PAIRS ! 0)
      [''BTC-USDC'' \<mapsto> 0])) ! 10) = BUY \<and>
   fixed_string False 678901235 = ''67890.1235'' \<and>
   numstr_value (Fixed False 678901235) = Some (135780247 / 2000) \<and>
   numstr_value (NumToString (round_frac 6789012345678 100000000)) =
     Some (4665373759492361 / 68719476736)"
proof -
  let ?mp = "round_frac 6789012345678 100000000"
  let ?w = "\<lparr>on_price = PriceResponse 200 (Item True ?mp),
       on_cancel = Status 200, on_order = always (Status 200), on_text = always True\<rparr>"
  have sym: "symbol (PAIRS ! 0) \<noteq> ''0G-USDC''" by (simp add: PAIRS_def)
  have sy: "symbol (PAIRS ! 0) = ''BTC-USDC''" by (simp add: PAIRS_def)
  have m: "mark_price (PAIRS ! 0) (on_price ?w) \<lparr>trace = [], calls = 0\<rparr> =
     (Inr ?mp, \<lparr>trace = [PriceQuery Binance ''BTCUSDT''], calls = 0\<rparr>)"
    using mark_price_binance[OF sym, of 200] by (simp add: ok_def btc_binance)
  have nf: "\<not> falsy ?mp" by (simp add: binance_price)
  have c: "on_cancel ?w = Status 200" by simp
  have a: "\<forall>j<length (cycle_orders defaults (PAIRS ! 0) ?mp).
      \<exists>st. on_order ?w j = Status st \<and> ok st"
    by (simp add: always_def ok_def)
  have steps: "cycle_steps defaults ?w (PAIRS ! 0) =
      (Done, \<lparr>trace = [PriceQuery Binance ''BTCUSDT''] @
                 [CancelOrders (backend (getSymbols (symbol (PAIRS ! 0)))), CancelLogged None] @
                 map OrderSent (cycle_orders defaults (PAIRS ! 0) ?mp),
               calls = length (cycle_orders defaults (PAIRS ! 0) ?mp)\<rparr>)"
    using cycle_steps_all_ok[OF m nf c a] by (simp add: ok_def)
  have "sent_orders (fst (cycleForPair defaults ?w (PAIRS ! 0) [''BTC-USDC'' \<mapsto> 0])) =
      cycle_orders defaults (PAIRS ! 0) ?mp"
    by (simp add: cycleForPair_def steps sy sent_orders_append sent_orders_map)
  then have "sent_orders (fst (cycleForPair defaults ?w (PAIRS ! 0) [''BTC-USDC'' \<mapsto> 0])) ! 10 =
      match_order (PAIRS ! 0) ?mp BUY"
    by (simp only: cycle_orders_match_buy)
  then show ?thesis
    using binance_price_sent by (simp add: match_order_def)
qed

end
